theory Spec2Isabelle
  imports Main "HOL-Library.Word" "HOL-Library.AList"
begin

unbundle bit_operations_syntax

section \<open>Connections (include/core/client_connection.hpp)\<close>

datatype ClientState = CONNECTING | AUTHENTICATING | AUTHENTICATED | DISCONNECTING | DISCONNECTED

text \<open>
  Of a \<^verbatim>\<open>ClientConnection\<close> the registry reads the id and the state only.
\<close>

text \<open>
  Modelled from the spec: the field \<open>username\<close>, the user name of the authenticated
  principal in the spec's data model of a connection. The class declares no member for it
  and its implementation file is not among the sources; the field is carried along so that
  statements about user names can be written at all. No operation of \<^verbatim>\<open>Server\<close> reads it.
\<close>

record ClientConnection =
  client_id :: "64 word"
  state :: ClientState
  username :: string

definition getId :: "ClientConnection \<Rightarrow> 64 word" where
  "getId c = client_id c"

definition isAuthenticated :: "ClientConnection \<Rightarrow> bool" where
  "isAuthenticated c = (state c = AUTHENTICATED)"

definition isConnected :: "ClientConnection \<Rightarrow> bool" where
  "isConnected c = (state c \<noteq> DISCONNECTED \<and> state c \<noteq> DISCONNECTING)"

section \<open>Thread pool (include/core/thread_pool.hpp)\<close>

text \<open>
  A task of the pool is a closure. The only closures the registry operations enqueue are
  \<^verbatim>\<open>[client, message]() { client->sendEncryptedMessage(message); }\<close>; the captured
  connection is named by its id. \<open>enqueue\<close> throws on a stopped pool and appends to the
  queue otherwise.
\<close>

datatype task = SendEncrypted "64 word" string

record ThreadPool =
  tasks :: "task list"
  stop_flag :: bool

datatype exn = RuntimeError string

definition enqueue :: "ThreadPool \<Rightarrow> task \<Rightarrow> exn + ThreadPool" where
  "enqueue p t =
     (if stop_flag p then Inl (RuntimeError ''enqueue on stopped ThreadPool'')
      else Inr (p\<lparr>tasks := tasks p @ [t]\<rparr>))"

section \<open>Metrics\<close>

text \<open>
  Modelled from the spec: \<^verbatim>\<open>utils::MetricsCollector\<close>, whose header is not among the
  sources. The spec gives the server counters that are atomic integers and a metrics
  snapshot; the server reaches the collector through \<^verbatim>\<open>incrementCounter(name)\<close> and
  \<^verbatim>\<open>setGauge(name, value)\<close> only, so it is a table of named counters and a table of named
  gauges. The gauges the registry sets are sizes converted to \<^verbatim>\<open>double\<close>, kept here as
  natural numbers.
\<close>

record MetricsCollector =
  counters :: "string \<Rightarrow> nat"
  gauges :: "string \<Rightarrow> nat option"

definition incrementCounter :: "MetricsCollector \<Rightarrow> string \<Rightarrow> MetricsCollector" where
  "incrementCounter m name = m\<lparr>counters := (counters m)(name := Suc (counters m name))\<rparr>"

definition setGauge :: "MetricsCollector \<Rightarrow> string \<Rightarrow> nat \<Rightarrow> MetricsCollector" where
  "setGauge m name v = m\<lparr>gauges := (gauges m)(name \<mapsto> v)\<rparr>"

section \<open>The server's registry (src/core/server.cpp)\<close>

text \<open>
  \<^verbatim>\<open>clients_\<close> is a \<^verbatim>\<open>std::unordered_map\<close> from connection id to connection. It is kept
  as an association list with distinct keys (\<open>wf_clients\<close>); the order of the list stands
  for the unspecified iteration order of the hash table, and no statement below depends
  on it. \<^verbatim>\<open>metrics_\<close> may be null. Every operation holds the registry lock while it reads
  or writes the table, so each is one atomic step on the state. Log output is not part of
  the state.
\<close>

record Server =
  clients :: "(64 word \<times> ClientConnection) list"
  thread_pool :: ThreadPool
  metrics :: "MetricsCollector option"
  total_messages_sent :: "64 word"

definition wf_clients :: "Server \<Rightarrow> bool" where
  "wf_clients s = distinct (map fst (clients s))"

definition initial_server :: "MetricsCollector option \<Rightarrow> Server" where
  "initial_server m =
     \<lparr>clients = [], thread_pool = \<lparr>tasks = [], stop_flag = False\<rparr>, metrics = m,
      total_messages_sent = 0\<rparr>"

definition getConnectedClientsCount :: "Server \<Rightarrow> nat" where
  "getConnectedClientsCount s = length (clients s)"

definition getClient :: "Server \<Rightarrow> 64 word \<Rightarrow> ClientConnection option" where
  "getClient s cid = map_of (clients s) cid"

text \<open>The guard \<^verbatim>\<open>if (metrics_) { ... }\<close>.\<close>

definition on_metrics :: "(MetricsCollector \<Rightarrow> MetricsCollector) \<Rightarrow> Server \<Rightarrow> Server" where
  "on_metrics f s = (case metrics s of None \<Rightarrow> s | Some m \<Rightarrow> s\<lparr>metrics := Some (f m)\<rparr>)"

text \<open>\<^verbatim>\<open>addClient\<close> takes a shared pointer, which may be null (\<open>None\<close>).\<close>

fun addClient :: "Server \<Rightarrow> ClientConnection option \<Rightarrow> Server" where
  "addClient s None = s"
| "addClient s (Some client) =
     (let s1 = s\<lparr>clients := AList.update (getId client) client (clients s)\<rparr>
      in on_metrics (\<lambda>m. setGauge (incrementCounter m ''clients_connected_total'')
                            ''clients_active'' (length (clients s1))) s1)"

definition removeClient :: "Server \<Rightarrow> 64 word \<Rightarrow> Server" where
  "removeClient s cid =
     (case map_of (clients s) cid of
        None \<Rightarrow> s
      | Some _ \<Rightarrow>
          (let s1 = s\<lparr>clients := AList.delete cid (clients s)\<rparr>
           in on_metrics (\<lambda>m. setGauge (incrementCounter m ''clients_disconnected_total'')
                                 ''clients_active'' (length (clients s1))) s1))"

text \<open>
  The loop of \<^verbatim>\<open>broadcastMessage\<close>. An exception of \<open>enqueue\<close> leaves the loop at once;
  the tasks enqueued before it stay in the pool.
\<close>

fun broadcast_loop ::
  "(64 word \<times> ClientConnection) list \<Rightarrow> string \<Rightarrow> 64 word \<Rightarrow> ThreadPool \<Rightarrow> exn option \<times> ThreadPool"
where
  "broadcast_loop [] message sender_id p = (None, p)"
| "broadcast_loop ((cid, client) # rest) message sender_id p =
     (if cid \<noteq> sender_id \<and> isAuthenticated client then
        (case enqueue p (SendEncrypted (getId client) message) of
           Inl e \<Rightarrow> (Some e, p)
         | Inr p' \<Rightarrow> broadcast_loop rest message sender_id p')
      else broadcast_loop rest message sender_id p)"

text \<open>
  \<^verbatim>\<open>clients_.size() - (sender_id ? 1 : 0)\<close> is computed in \<^verbatim>\<open>size_t\<close>, 64 bits wide, and
  added to the 64-bit atomic counter: both wrap.
\<close>

definition broadcast_count :: "Server \<Rightarrow> 64 word \<Rightarrow> 64 word" where
  "broadcast_count s sender_id =
     of_nat (length (clients s)) - (if sender_id \<noteq> 0 then 1 else 0)"

text \<open>
  The operations that enqueue return \<^verbatim>\<open>void\<close>: what a caller can observe of a call is
  whether it threw (the first component of the result) and the state it left.
\<close>

definition broadcastMessage :: "Server \<Rightarrow> string \<Rightarrow> 64 word \<Rightarrow> exn option \<times> Server" where
  "broadcastMessage s message sender_id =
     (case broadcast_loop (clients s) message sender_id (thread_pool s) of
        (Some e, p) \<Rightarrow> (Some e, s\<lparr>thread_pool := p\<rparr>)
      | (None, p) \<Rightarrow>
          (None, on_metrics (\<lambda>m. incrementCounter m ''messages_broadcast_total'')
                   (s\<lparr>thread_pool := p,
                      total_messages_sent := total_messages_sent s + broadcast_count s sender_id\<rparr>)))"

definition sendToClient :: "Server \<Rightarrow> 64 word \<Rightarrow> string \<Rightarrow> exn option \<times> Server" where
  "sendToClient s cid message =
     (case getClient s cid of
        None \<Rightarrow> (None, s)
      | Some client \<Rightarrow>
          (if isAuthenticated client then
             (case enqueue (thread_pool s) (SendEncrypted (getId client) message) of
                Inl e \<Rightarrow> (Some e, s)
              | Inr p' \<Rightarrow>
                  (None, on_metrics (\<lambda>m. incrementCounter m ''messages_sent_total'')
                           (s\<lparr>thread_pool := p',
                              total_messages_sent := total_messages_sent s + 1\<rparr>)))
           else (None, s)))"

text \<open>
  \<^verbatim>\<open>cleanupDisconnectedClients\<close> first collects the ids of the connections that are not
  connected, then removes them one by one.
\<close>

definition disconnected_clients :: "Server \<Rightarrow> 64 word list" where
  "disconnected_clients s =
     map fst (filter (\<lambda>(cid, client). \<not> isConnected client) (clients s))"

definition cleanupDisconnectedClients :: "Server \<Rightarrow> Server" where
  "cleanupDisconnectedClients s = fold (\<lambda>cid s'. removeClient s' cid) (disconnected_clients s) s"

subsection \<open>Reachable states\<close>

text \<open>
  A connection changes its own state from its own threads; seen from the registry this is
  a step of the environment. The reachable states of the registry are those the
  operations and such steps produce from the empty registry.
\<close>

definition set_client_state :: "Server \<Rightarrow> 64 word \<Rightarrow> ClientState \<Rightarrow> Server" where
  "set_client_state s cid st =
     s\<lparr>clients := map (\<lambda>(k, c). (k, if k = cid then c\<lparr>state := st\<rparr> else c)) (clients s)\<rparr>"

inductive reachable :: "Server \<Rightarrow> bool" where
  initial: "reachable (initial_server m)"
| add: "reachable s \<Longrightarrow> reachable (addClient s c)"
| remove: "reachable s \<Longrightarrow> reachable (removeClient s cid)"
| broadcast: "reachable s \<Longrightarrow> reachable (snd (broadcastMessage s message sender_id))"
| send: "reachable s \<Longrightarrow> reachable (snd (sendToClient s cid message))"
| cleanup: "reachable s \<Longrightarrow> reachable (cleanupDisconnectedClients s)"
| transition: "reachable s \<Longrightarrow> reachable (set_client_state s cid st)"

subsection \<open>Notions used in the statements\<close>

text \<open>No two authenticated connections of the registry carry the same user name.\<close>

definition username_unique :: "Server \<Rightarrow> bool" where
  "username_unique s =
     list_all (\<lambda>(k, c). list_all (\<lambda>(k', c').
        isAuthenticated c \<and> isAuthenticated c' \<and> username c = username c' \<longrightarrow> k = k')
        (clients s)) (clients s)"

text \<open>The id names a registered connection that is authenticated.\<close>

definition deliverable :: "Server \<Rightarrow> 64 word \<Rightarrow> bool" where
  "deliverable s cid = (case getClient s cid of None \<Rightarrow> False | Some c \<Rightarrow> isAuthenticated c)"

text \<open>The connections a broadcast enqueues a send task for.\<close>

definition recipients :: "Server \<Rightarrow> 64 word \<Rightarrow> ClientConnection list" where
  "recipients s sender_id =
     map snd (filter (\<lambda>(cid, client). cid \<noteq> sender_id \<and> isAuthenticated client) (clients s))"

subsection \<open>Example connections\<close>

definition alice1 :: ClientConnection where
  "alice1 = \<lparr>client_id = 1, state = AUTHENTICATED, username = ''alice''\<rparr>"

definition alice2 :: ClientConnection where
  "alice2 = \<lparr>client_id = 2, state = AUTHENTICATED, username = ''alice''\<rparr>"

definition draining :: ClientConnection where
  "draining = \<lparr>client_id = 7, state = DISCONNECTING, username = ''bob''\<rparr>"

definition waiting :: ClientConnection where
  "waiting = \<lparr>client_id = 3, state = AUTHENTICATING, username = ''carol''\<rparr>"

section \<open>The program's entry point (src/main.cpp)\<close>

text \<open>
  The process ends with an exit code, or is aborted when an exception escapes \<^verbatim>\<open>main\<close>
  (\<^verbatim>\<open>std::terminate\<close>).
\<close>

datatype exit_status = Exit int | Abort

record options =
  config_file :: string
  port :: int
  threads :: int
  log_level :: string
  daemon_mode :: bool

definition default_options :: options where
  "default_options =
     \<lparr>config_file = ''config/server.json'', port = 8080, threads = 0, log_level = ''info'',
      daemon_mode = False\<rparr>"

text \<open>
  The loop over \<^verbatim>\<open>argv[1..]\<close>. It runs before the \<^verbatim>\<open>try\<close> block, so an exception of
  \<^verbatim>\<open>std::stoi\<close> (taken as a parameter: \<open>None\<close> where it throws) is not caught.
\<close>

fun parse_args :: "(string \<Rightarrow> int option) \<Rightarrow> string list \<Rightarrow> options \<Rightarrow> exit_status + options" where
  "parse_args stoi [] opts = Inr opts"
| "parse_args stoi (arg # rest) opts =
     (if arg = ''-h'' \<or> arg = ''--help'' then Inl (Exit 0)
      else if arg = ''-v'' \<or> arg = ''--version'' then Inl (Exit 0)
      else if arg = ''-c'' \<or> arg = ''--config'' then
        (case rest of
           [] \<Rightarrow> Inl (Exit 1)
         | v # rest' \<Rightarrow> parse_args stoi rest' (opts\<lparr>config_file := v\<rparr>))
      else if arg = ''-p'' \<or> arg = ''--port'' then
        (case rest of
           [] \<Rightarrow> Inl (Exit 1)
         | v # rest' \<Rightarrow>
             (case stoi v of
                None \<Rightarrow> Inl Abort
              | Some n \<Rightarrow> parse_args stoi rest' (opts\<lparr>port := n\<rparr>)))
      else if arg = ''-t'' \<or> arg = ''--threads'' then
        (case rest of
           [] \<Rightarrow> Inl (Exit 1)
         | v # rest' \<Rightarrow>
             (case stoi v of
                None \<Rightarrow> Inl Abort
              | Some n \<Rightarrow> parse_args stoi rest' (opts\<lparr>threads := n\<rparr>)))
      else if arg = ''-l'' \<or> arg = ''--log-level'' then
        (case rest of
           [] \<Rightarrow> Inl (Exit 1)
         | v # rest' \<Rightarrow> parse_args stoi rest' (opts\<lparr>log_level := v\<rparr>))
      else if arg = ''-d'' \<or> arg = ''--daemon'' then parse_args stoi rest (opts\<lparr>daemon_mode := True\<rparr>)
      else Inl (Exit 1))"

text \<open>
  What \<^verbatim>\<open>main\<close> calls inside its \<^verbatim>\<open>try\<close> block is outside this file; the environment
  records how each call ends. \<open>initialize\<close> stands for constructing the server and
  \<^verbatim>\<open>Server::initialize\<close>, \<open>start\<close> for \<^verbatim>\<open>Server::start\<close>, which rethrows its failures.
  The serving loop \<^verbatim>\<open>while (true)\<close> has no exit of its own: it ends when the signal
  handler calls \<^verbatim>\<open>std::exit(0)\<close>, or when an exception leaves it, or never.
\<close>

datatype 'a outcome = Returns 'a | Throws

datatype serving = Signalled | ServingThrows | Forever

record environment =
  stoi :: "string \<Rightarrow> int option"
  setup_logging :: "unit outcome"
  loadFromFile :: "string \<Rightarrow> bool outcome"
  initialize :: "bool outcome"
  start :: "unit outcome"
  serve :: serving

text \<open>The \<^verbatim>\<open>try\<close> block with its two handlers, both of which return 1.\<close>

definition run_server :: "environment \<Rightarrow> options \<Rightarrow> exit_status option" where
  "run_server env opts =
     (case setup_logging env of
        Throws \<Rightarrow> Some (Exit 1)
      | Returns _ \<Rightarrow>
     (case loadFromFile env (config_file opts) of
        Throws \<Rightarrow> Some (Exit 1)
      | Returns False \<Rightarrow> Some (Exit 1)
      | Returns True \<Rightarrow>
     (case initialize env of
        Throws \<Rightarrow> Some (Exit 1)
      | Returns False \<Rightarrow> Some (Exit 1)
      | Returns True \<Rightarrow>
     (case start env of
        Throws \<Rightarrow> Some (Exit 1)
      | Returns _ \<Rightarrow>
     (case serve env of
        Signalled \<Rightarrow> Some (Exit 0)
      | ServingThrows \<Rightarrow> Some (Exit 1)
      | Forever \<Rightarrow> None)))))"

text \<open>\<open>None\<close>: the process does not end.\<close>

definition main :: "environment \<Rightarrow> string list \<Rightarrow> exit_status option" where
  "main env argv =
     (case parse_args (stoi env) argv default_options of
        Inl status \<Rightarrow> Some status
      | Inr opts \<Rightarrow> run_server env opts)"

text \<open>Startup went through: logging, configuration, initialisation and start all succeeded.\<close>

definition started :: "environment \<Rightarrow> options \<Rightarrow> bool" where
  "started env opts \<longleftrightarrow>
     setup_logging env = Returns () \<and> loadFromFile env (config_file opts) = Returns True \<and>
     initialize env = Returns True \<and> start env = Returns ()"

text \<open>An example environment: everything works, and the run ends by a signal.\<close>

definition healthy :: environment where
  "healthy = \<lparr>stoi = (\<lambda>s. if s = ''9000'' then Some 9000 else None),
              setup_logging = Returns (), loadFromFile = (\<lambda>f. Returns (f = ''config/server.json'')),
              initialize = Returns True, start = Returns (), serve = Signalled\<rparr>"

subsection \<open>Notions used in the statements\<close>

text \<open>The arguments that \<^verbatim>\<open>main\<close> answers by printing the usage or the version.\<close>

definition help_request :: "string \<Rightarrow> bool" where
  "help_request a \<longleftrightarrow> a = ''-h'' \<or> a = ''--help'' \<or> a = ''-v'' \<or> a = ''--version''"

text \<open>The options that are followed by a value, and those among them whose value is a number.\<close>

definition takes_number :: "string \<Rightarrow> bool" where
  "takes_number a \<longleftrightarrow> a = ''-p'' \<or> a = ''--port'' \<or> a = ''-t'' \<or> a = ''--threads''"

definition takes_value :: "string \<Rightarrow> bool" where
  "takes_value a \<longleftrightarrow>
     a = ''-c'' \<or> a = ''--config'' \<or> a = ''-l'' \<or> a = ''--log-level'' \<or> takes_number a"

text \<open>The arguments that the usage lists.\<close>

definition known_option :: "string \<Rightarrow> bool" where
  "known_option a \<longleftrightarrow> help_request a \<or> takes_value a \<or> a = ''-d'' \<or> a = ''--daemon''"

section \<open>Session cryptography (include/crypto/encryption_manager.hpp)\<close>

text \<open>
  The header declares the envelope, the manager's members and the signatures; the
  implementation file is not among the sources. The envelope follows the header, the
  operations are modelled from the spec's section on session cryptography.
\<close>

type_synonym byte = "8 word"
type_synonym bytes = "byte list"

record EncryptedMessage =
  ciphertext :: bytes
  iv :: bytes
  hmac :: bytes
  timestamp :: "64 word"
  sequence_number :: "64 word"

text \<open>
  The cryptographic primitives of the library are parameters: the block function of
  AES-256 (key, 16-byte block), HMAC-SHA256 (key, data) and the key derivation function
  (shared secret to confidentiality key and HMAC key). A statement that needs a property
  of them names it as a hypothesis.
\<close>

record primitives =
  aes256 :: "bytes \<Rightarrow> bytes \<Rightarrow> bytes"
  hmac_sha256 :: "bytes \<Rightarrow> bytes \<Rightarrow> bytes"
  kdf :: "bytes \<Rightarrow> bytes \<times> bytes"

text \<open>
  Modelled from the spec: "AES-256 in counter mode". A block of the cipher has 16 bytes;
  what the block function returns is read as one block.
\<close>

definition block16 :: "bytes \<Rightarrow> bytes" where
  "block16 b = take 16 (b @ replicate 16 0)"

text \<open>
  Modelled from the spec: the counter of the counter mode. The IV is the first counter
  block, and the counter block is incremented as a big-endian number from one block to the
  next. \<open>incr_le\<close> increments a number given with its least significant byte first.
\<close>

fun incr_le :: "bytes \<Rightarrow> bytes" where
  "incr_le [] = []"
| "incr_le (b # bs) = (if b = 255 then 0 # incr_le bs else (b + 1) # bs)"

text \<open>Modelled from the spec: the counter block of the \<open>i\<close>-th block of data under the IV \<open>v\<close>.\<close>

definition ctr_block :: "bytes \<Rightarrow> nat \<Rightarrow> bytes" where
  "ctr_block v i = ((\<lambda>b. rev (incr_le (rev b))) ^^ i) v"

text \<open>
  Modelled from the spec: the key stream of the counter mode, the encryptions of the counter
  blocks one after the other; \<open>keystream P key v j\<close> is its byte at position \<open>j\<close>.
\<close>

definition keystream :: "primitives \<Rightarrow> bytes \<Rightarrow> bytes \<Rightarrow> nat \<Rightarrow> byte" where
  "keystream P key v j = block16 (aes256 P key (ctr_block v (j div 16))) ! (j mod 16)"

text \<open>
  Modelled from the spec: \<^verbatim>\<open>aesEncrypt\<close> and \<^verbatim>\<open>aesDecrypt\<close>, "AES-256 in counter mode
  over the plaintext". The data is combined with the key stream by exclusive or, byte by
  byte; encryption and decryption are the same function, and the result is as long as the
  data.
\<close>

definition aes256_ctr :: "primitives \<Rightarrow> bytes \<Rightarrow> bytes \<Rightarrow> bytes \<Rightarrow> bytes" where
  "aes256_ctr P key v data = map2 (XOR) data (map (keystream P key v) [0..<length data])"


text \<open>
  Modelled from the spec: the encoding of the integers of an envelope, eight bytes in
  network byte order, for the data the tag is computed over, "sequence \<open>\<parallel>\<close> timestamp
  \<open>\<parallel>\<close> iv \<open>\<parallel>\<close> ciphertext".
\<close>

definition u64be :: "64 word \<Rightarrow> bytes" where
  "u64be w = map (\<lambda>i. ucast (drop_bit (8 * i) w)) (rev [0..<8])"

text \<open>Modelled from the spec: the concatenation the tag is computed over.\<close>

definition mac_input :: "64 word \<Rightarrow> 64 word \<Rightarrow> bytes \<Rightarrow> bytes \<Rightarrow> bytes" where
  "mac_input sq ts v c = u64be sq @ u64be ts @ v @ c"

text \<open>
  Modelled from the spec: \<^verbatim>\<open>computeHMAC\<close> on an envelope, the tag that "recompute HMAC" gives
  under a key.
\<close>

definition expected_tag :: "primitives \<Rightarrow> bytes \<Rightarrow> EncryptedMessage \<Rightarrow> bytes" where
  "expected_tag P k e = hmac_sha256 P k (mac_input (sequence_number e) (timestamp e) (iv e) (ciphertext e))"

text \<open>
  Modelled from the spec: the state of a session. The two keys and the send counter
  ("next send sequence (u64, init 0)") are the header's members. The receive state is the
  spec's "highest-accepted receive sequence (u64, init 0; first expected = 0)": before
  anything is accepted the envelope numbered 0 is the one expected, so there is no highest
  accepted number yet (\<open>None\<close>); afterwards there is one, and it is never forgotten. The
  random values the session has used (IVs and shared secrets) are kept, to say what a
  fresh one is.
\<close>

record EncryptionManager =
  session_key :: bytes
  hmac_key :: bytes
  send_sequence :: "64 word"
  highest_accepted :: "64 word option"
  used :: "bytes list"

text \<open>The manager as its member initialisers leave it: counters at their start, no keys yet.\<close>

definition new_manager :: EncryptionManager where
  "new_manager = \<lparr>session_key = replicate 32 0, hmac_key = replicate 32 0,
                   send_sequence = 0, highest_accepted = None, used = []\<rparr>"


datatype crypto_error = KeyExchangeFailed | IntegrityFailed | ReplayDetected | DecryptFailed

text \<open>
  Modelled from the spec: the computation of \<^verbatim>\<open>EncryptionManager::encrypt\<close> once the IV is
  drawn. "Produce ciphertext C = AES-256-CTR(key_c, IV, P); compute tag = HMAC-SHA256(key_h,
  seq \<open>\<parallel>\<close> ts \<open>\<parallel>\<close> IV \<open>\<parallel>\<close> C); increment seq; emit envelope {seq, ts, IV, C, tag}." The
  envelope carries the sequence number the tag was computed over, the first one being 0.
  The clock is an input.
\<close>

definition encrypt_with ::
  "primitives \<Rightarrow> EncryptionManager \<Rightarrow> bytes \<Rightarrow> 64 word \<Rightarrow> bytes \<Rightarrow> EncryptedMessage \<times> EncryptionManager"
where
  "encrypt_with P st random_iv now plaintext =
     (let c = aes256_ctr P (session_key st) random_iv plaintext;
          tag = hmac_sha256 P (hmac_key st) (mac_input (send_sequence st) now random_iv c)
      in (\<lparr>ciphertext = c, iv = random_iv, hmac = tag, timestamp = now,
           sequence_number = send_sequence st\<rparr>,
          st\<lparr>send_sequence := send_sequence st + 1, used := random_iv # used st\<rparr>))"

text \<open>
  Modelled from the spec: \<^verbatim>\<open>EncryptionManager::encrypt\<close>, which starts with "draw a random
  16-byte IV", "random per message". The draw is not an argument of the operation: a call
  has one outcome for each value the random source can return, and a random value is taken
  to be one the session has not used before, as in the symbolic models of protocols.
  \<open>encrypt P st now plaintext (e, st')\<close> says that the envelope \<open>e\<close> and the state \<open>st'\<close> are
  an outcome of the call.
\<close>

definition encrypt ::
  "primitives \<Rightarrow> EncryptionManager \<Rightarrow> 64 word \<Rightarrow> bytes \<Rightarrow> EncryptedMessage \<times> EncryptionManager \<Rightarrow> bool"
where
  "encrypt P st now plaintext outcome \<longleftrightarrow>
     length (iv (fst outcome)) = 16 \<and> iv (fst outcome) \<notin> set (used st) \<and>
     outcome = encrypt_with P st (iv (fst outcome)) now plaintext"

text \<open>Modelled from the spec: the replay test, "fail-closed if seq \<open>\<le>\<close> highest-accepted".\<close>

definition replayed :: "EncryptionManager \<Rightarrow> EncryptedMessage \<Rightarrow> bool" where
  "replayed st e = (case highest_accepted st of None \<Rightarrow> False | Some h \<Rightarrow> sequence_number e \<le> h)"

text \<open>
  Modelled from the spec: \<^verbatim>\<open>EncryptionManager::decrypt\<close>. "Fail-closed if seq \<open>\<le>\<close>
  highest-accepted; recompute HMAC and reject on mismatch; decrypt; advance
  highest-accepted = seq", with the errors ReplayDetected and IntegrityFailed.
\<close>

definition decrypt ::
  "primitives \<Rightarrow> EncryptionManager \<Rightarrow> EncryptedMessage \<Rightarrow> (crypto_error + bytes) \<times> EncryptionManager"
where
  "decrypt P st e =
     (if replayed st e then (Inl ReplayDetected, st)
      else if expected_tag P (hmac_key st) e \<noteq> hmac e then (Inl IntegrityFailed, st)
      else (Inr (aes256_ctr P (session_key st) (iv e) (ciphertext e)),
            st\<lparr>highest_accepted := Some (sequence_number e)\<rparr>))"

text \<open>
  Modelled from the spec: the receive side of a connection direction. "IntegrityFailed
  (HMAC mismatch; terminate), ReplayDetected (sequence not strictly greater; terminate)
  ... All crypto failures are fatal to the connection": an error of decrypt terminates the
  connection, with the error as the reason, and on a connection that is shutting down "no
  new inbound frames are dispatched". \<open>terminated\<close> is \<open>None\<close> on a live connection.
\<close>

record Receiver =
  manager :: EncryptionManager
  terminated :: "crypto_error option"

text \<open>
  Modelled from the spec: an envelope arrives on a connection direction. Nothing is handed
  on once the connection is terminated; otherwise decrypt decides.
\<close>

definition receive :: "primitives \<Rightarrow> Receiver \<Rightarrow> EncryptedMessage \<Rightarrow> bytes option \<times> Receiver" where
  "receive P d e =
     (case terminated d of
        Some _ \<Rightarrow> (None, d)
      | None \<Rightarrow>
          (case decrypt P (manager d) e of
             (Inl err, _) \<Rightarrow> (None, d\<lparr>terminated := Some err\<rparr>)
           | (Inr plaintext, st') \<Rightarrow> (Some plaintext, d\<lparr>manager := st'\<rparr>)))"

text \<open>
  A stream of envelopes presented to a receiver one after the other, in any order and with
  any repetitions: the state it leaves, and the sequence numbers of the envelopes accepted.
\<close>

fun receive_all :: "primitives \<Rightarrow> Receiver \<Rightarrow> EncryptedMessage list \<Rightarrow> Receiver" where
  "receive_all P d [] = d"
| "receive_all P d (e # es) = receive_all P (snd (receive P d e)) es"

fun accepted_sequences :: "primitives \<Rightarrow> Receiver \<Rightarrow> EncryptedMessage list \<Rightarrow> 64 word list" where
  "accepted_sequences P d [] = []"
| "accepted_sequences P d (e # es) =
     (case fst (receive P d e) of
        None \<Rightarrow> accepted_sequences P (snd (receive P d e)) es
      | Some _ \<Rightarrow> sequence_number e # accepted_sequences P (snd (receive P d e)) es)"

text \<open>
  Modelled from the spec: \<^verbatim>\<open>EncryptionManager::deriveSessionKeys\<close>, which "derives two
  symmetric keys via a KDF: a 256-bit confidentiality key and a 256-bit HMAC key" from
  the shared secret; the secret counts as used.
\<close>

definition deriveSessionKeys :: "primitives \<Rightarrow> EncryptionManager \<Rightarrow> bytes \<Rightarrow> EncryptionManager" where
  "deriveSessionKeys P st shared_secret =
     st\<lparr>session_key := fst (kdf P shared_secret), hmac_key := snd (kdf P shared_secret),
        used := shared_secret # used st\<rparr>"



subsection \<open>Notions used in the statements\<close>

text \<open>The two ends of a direction hold the same keys.\<close>

definition same_keys :: "EncryptionManager \<Rightarrow> EncryptionManager \<Rightarrow> bool" where
  "same_keys r s \<longleftrightarrow> session_key r = session_key s \<and> hmac_key r = hmac_key s"

text \<open>
  The receiver \<open>r\<close> is in step with the sender \<open>s\<close>: it has accepted nothing numbered at or
  above the next sequence number of the sender. This is so when the sender's envelopes
  reach it in the order they were made, and on a single manager that decrypts what it has
  just encrypted.
\<close>

definition in_step :: "EncryptionManager \<Rightarrow> EncryptionManager \<Rightarrow> bool" where
  "in_step r s = (case highest_accepted r of None \<Rightarrow> True | Some h \<Rightarrow> h < send_sequence s)"

text \<open>The keys of the session were derived from a shared secret that it has used.\<close>

definition keyed :: "primitives \<Rightarrow> EncryptionManager \<Rightarrow> bool" where
  "keyed P st = list_ex (\<lambda>secret. kdf P secret = (session_key st, hmac_key st)) (used st)"


subsection \<open>Example session\<close>

text \<open>
  Simple functions in the place of the primitives, to evaluate the operations on concrete
  envelopes. They have none of the strength of the real ones.
\<close>

definition example_primitives :: primitives where
  "example_primitives =
     \<lparr>aes256 = (\<lambda>key b. map (\<lambda>x. x + sum_list key) b),
      hmac_sha256 = (\<lambda>key data. key @ data),
      kdf = (\<lambda>secret. (secret @ [1], secret @ [2]))\<rparr>"

definition established :: EncryptionManager where
  "established = deriveSessionKeys example_primitives new_manager [7]"

definition first_envelope :: EncryptedMessage where
  "first_envelope = fst (encrypt_with example_primitives established (replicate 16 1) 1000 [72, 105])"

definition after_first :: EncryptionManager where
  "after_first = snd (encrypt_with example_primitives established (replicate 16 1) 1000 [72, 105])"

definition second_envelope :: EncryptedMessage where
  "second_envelope = fst (encrypt_with example_primitives after_first (replicate 16 2) 1001 [33])"

definition after_second :: EncryptionManager where
  "after_second = snd (encrypt_with example_primitives after_first (replicate 16 2) 1001 [33])"

definition third_envelope :: EncryptedMessage where
  "third_envelope = fst (encrypt_with example_primitives after_second (replicate 16 3) 1002 [63])"


definition forged :: EncryptedMessage where
  "forged = \<lparr>ciphertext = [1, 2, 3], iv = replicate 16 0, hmac = replicate 32 0,
              timestamp = 1000, sequence_number = 5\<rparr>"

definition listening :: Receiver where
  "listening = \<lparr>manager = established, terminated = None\<rparr>"

section \<open>Properties of the registry\<close>

subsection \<open>Invariants\<close>

lemma map_of_delete_same: "map_of (AList.delete k al) k = None"
  by (simp add: AList.delete_conv')

lemma clients_on_metrics: "clients (on_metrics f s) = clients s"
  by (simp add: on_metrics_def split: option.split)

lemma thread_pool_on_metrics: "thread_pool (on_metrics f s) = thread_pool s"
  by (simp add: on_metrics_def split: option.split)

lemma total_on_metrics: "total_messages_sent (on_metrics f s) = total_messages_sent s"
  by (simp add: on_metrics_def split: option.split)

lemma clients_addClient:
  "clients (addClient s (Some c)) = AList.update (getId c) c (clients s)"
  by (simp add: Let_def clients_on_metrics)

lemma clients_removeClient: "clients (removeClient s cid) = AList.delete cid (clients s)"
proof (cases "map_of (clients s) cid")
  case None
  then have "cid \<notin> fst ` set (clients s)"
    by (simp add: map_of_eq_None_iff)
  with None show ?thesis
    by (simp add: removeClient_def)
next
  case (Some c)
  then show ?thesis
    by (simp add: removeClient_def Let_def clients_on_metrics)
qed

lemma clients_broadcastMessage: "clients (snd (broadcastMessage s m sid)) = clients s"
  by (simp add: broadcastMessage_def clients_on_metrics split: prod.split option.split)

lemma clients_sendToClient: "clients (snd (sendToClient s cid m)) = clients s"
  by (simp add: sendToClient_def clients_on_metrics split: option.split sum.split)

lemma clients_fold_removeClient:
  "clients (fold (\<lambda>cid s'. removeClient s' cid) ks s) = AList.restrict (- set ks) (clients s)"
proof (induction ks arbitrary: s)
  case Nil
  show ?case by (simp add: AList.restrict_eq)
next
  case (Cons k ks)
  have "AList.restrict (- set ks) (AList.delete k al) =
        AList.restrict (- set (k # ks)) al" for al :: "(64 word \<times> ClientConnection) list"
    by (induction al) auto
  with Cons show ?case
    by (simp add: clients_removeClient)
qed

lemma clients_cleanup:
  "clients (cleanupDisconnectedClients s) =
   AList.restrict (- set (disconnected_clients s)) (clients s)"
  by (simp add: cleanupDisconnectedClients_def clients_fold_removeClient)

lemma wf_clients_preserved:
  assumes "wf_clients s"
  shows "wf_clients (addClient s c)" "wf_clients (removeClient s cid)"
    "wf_clients (snd (broadcastMessage s m sid))" "wf_clients (snd (sendToClient s cid m))"
    "wf_clients (cleanupDisconnectedClients s)" "wf_clients (set_client_state s cid st)"
proof -
  show "wf_clients (addClient s c)"
  proof (cases c)
    case None
    with assms show ?thesis by simp
  next
    case (Some x)
    with assms show ?thesis
      by (simp add: wf_clients_def clients_addClient AList.distinct_update del: addClient.simps)
  qed
  show "wf_clients (removeClient s cid)"
    using assms by (simp add: wf_clients_def clients_removeClient AList.distinct_delete)
  show "wf_clients (snd (broadcastMessage s m sid))"
    using assms by (simp add: wf_clients_def clients_broadcastMessage)
  show "wf_clients (snd (sendToClient s cid m))"
    using assms by (simp add: wf_clients_def clients_sendToClient)
  show "wf_clients (cleanupDisconnectedClients s)"
    using assms by (simp add: wf_clients_def clients_cleanup AList.distinct_restr)
  have "fst \<circ> (\<lambda>(k, c). (k, if k = cid then c\<lparr>state := st\<rparr> else c)) =
        (fst :: 64 word \<times> ClientConnection \<Rightarrow> 64 word)"
    by (simp add: fun_eq_iff)
  then show "wf_clients (set_client_state s cid st)"
    using assms by (simp add: wf_clients_def set_client_state_def)
qed

lemma reachable_wf: "reachable s \<Longrightarrow> wf_clients s"
  by (induction rule: reachable.induct)
     (simp_all add: wf_clients_preserved, simp add: wf_clients_def initial_server_def)

lemma getClient_addClient:
  "getClient (addClient s (Some c)) cid = (if cid = getId c then Some c else getClient s cid)"
  by (simp add: getClient_def clients_addClient AList.update_conv' del: addClient.simps)

lemma thread_pool_addClient: "thread_pool (addClient s c) = thread_pool s"
  by (cases c) (simp_all add: Let_def thread_pool_on_metrics)

lemma thread_pool_removeClient: "thread_pool (removeClient s cid) = thread_pool s"
  by (simp add: removeClient_def Let_def thread_pool_on_metrics split: option.split)

lemma thread_pool_fold_removeClient:
  "thread_pool (fold (\<lambda>cid s'. removeClient s' cid) ks s) = thread_pool s"
  by (induction ks arbitrary: s) (simp_all add: thread_pool_removeClient)

lemma stop_flag_broadcast_loop: "stop_flag (snd (broadcast_loop cl m sid p)) = stop_flag p"
proof (induction cl arbitrary: p)
  case Nil
  show ?case by simp
next
  case (Cons kc cl)
  obtain k c where kc: "kc = (k, c)" by (cases kc)
  show ?case
  proof (cases "enqueue p (SendEncrypted (getId c) m)")
    case (Inl e)
    with Cons show ?thesis by (simp add: kc)
  next
    case (Inr p')
    then have "stop_flag p' = stop_flag p"
      by (auto simp: enqueue_def split: if_splits)
    with Cons [of p'] Cons [of p] Inr show ?thesis by (simp add: kc)
  qed
qed

lemma stop_flag_broadcastMessage:
  "stop_flag (thread_pool (snd (broadcastMessage s m sid))) = stop_flag (thread_pool s)"
  using stop_flag_broadcast_loop [of "clients s" m sid "thread_pool s"]
  by (cases "broadcast_loop (clients s) m sid (thread_pool s)")
     (auto simp: broadcastMessage_def thread_pool_on_metrics split: option.splits)

lemma stop_flag_sendToClient:
  "stop_flag (thread_pool (snd (sendToClient s cid m))) = stop_flag (thread_pool s)"
  by (auto simp: sendToClient_def enqueue_def thread_pool_on_metrics split: option.splits)

lemma reachable_running: "reachable s \<Longrightarrow> \<not> stop_flag (thread_pool s)"
proof (induction rule: reachable.induct)
  case (initial m)
  show ?case by (simp add: initial_server_def)
next
  case (cleanup s)
  then show ?case by (simp add: cleanupDisconnectedClients_def thread_pool_fold_removeClient)
qed (simp_all add: thread_pool_addClient thread_pool_removeClient stop_flag_broadcastMessage
       stop_flag_sendToClient set_client_state_def del: addClient.simps)

subsection \<open>Registering a connection\<close>

text \<open>
  Claim C4, as the code has it. The registry is keyed by connection id alone. In every
  reachable state no two entries share an id; registering a connection stores it under
  its own id, replacing the entry of that id if there is one, and leaves every other
  entry and the thread pool as they were, whatever the user names: no connection is
  terminated and nothing is sent to any.
\<close>

theorem addClient_keyed_by_id:
  "reachable s \<Longrightarrow>
     wf_clients s \<and> wf_clients (addClient s (Some c)) \<and>
     getClient (addClient s (Some c)) cid = (if cid = getId c then Some c else getClient s cid) \<and>
     thread_pool (addClient s (Some c)) = thread_pool s"
  by (simp add: reachable_wf wf_clients_preserved getClient_addClient thread_pool_addClient
        del: addClient.simps)

text \<open>
  The theorem at the registry that holds the connection 1 of alice when her connection 2
  is registered.
\<close>

theorem addClient_keyed_by_id_witness:
  "reachable (addClient (initial_server None) (Some alice1)) \<and>
   getClient (addClient (addClient (initial_server None) (Some alice1)) (Some alice2)) 1 = Some alice1 \<and>
   getClient (addClient (addClient (initial_server None) (Some alice1)) (Some alice2)) 2 = Some alice2 \<and>
   thread_pool (addClient (addClient (initial_server None) (Some alice1)) (Some alice2)) =
     \<lparr>tasks = [], stop_flag = False\<rparr>"
proof -
  have r: "reachable (addClient (initial_server None) (Some alice1))"
    by (rule reachable.add) (rule reachable.initial)
  have "getClient (addClient (initial_server None) (Some alice1)) 1 = Some alice1"
    by (simp add: getClient_def initial_server_def alice1_def getId_def on_metrics_def)
  moreover have "thread_pool (addClient (initial_server None) (Some alice1)) = \<lparr>tasks = [], stop_flag = False\<rparr>"
    by (simp add: initial_server_def on_metrics_def)
  ultimately show ?thesis
    using r addClient_keyed_by_id [OF r, of alice2 1] addClient_keyed_by_id [OF r, of alice2 2]
    by (simp add: getId_def alice1_def alice2_def del: addClient.simps)
qed

text \<open>
  Claim C4 as stated fails: after alice has registered twice, both of her connections are
  in the registry, both authenticated, under the same user name, and no task was enqueued
  for the first one.
\<close>

theorem addClient_username_counterexample:
  "reachable (addClient (addClient (initial_server None) (Some alice1)) (Some alice2)) \<and>
   \<not> username_unique (addClient (addClient (initial_server None) (Some alice1)) (Some alice2)) \<and>
   clients (addClient (addClient (initial_server None) (Some alice1)) (Some alice2)) =
     [(1, alice1), (2, alice2)] \<and>
   state alice1 = AUTHENTICATED \<and> state alice2 = AUTHENTICATED \<and>
   username alice1 = username alice2 \<and>
   tasks (thread_pool (addClient (addClient (initial_server None) (Some alice1)) (Some alice2))) = []"
proof -
  have c: "clients (addClient (addClient (initial_server None) (Some alice1)) (Some alice2)) =
     [(1, alice1), (2, alice2)]"
    by (simp add: initial_server_def on_metrics_def getId_def alice1_def alice2_def)
  have "reachable (addClient (addClient (initial_server None) (Some alice1)) (Some alice2))"
    by (intro reachable.add reachable.initial)
  moreover have "\<not> username_unique (addClient (addClient (initial_server None) (Some alice1)) (Some alice2))"
    unfolding username_unique_def c by (simp add: isAuthenticated_def alice1_def alice2_def)
  moreover have "tasks (thread_pool (addClient (addClient (initial_server None) (Some alice1)) (Some alice2))) = []"
    by (simp add: thread_pool_addClient initial_server_def del: addClient.simps)
  ultimately show ?thesis
    using c by (simp add: alice1_def alice2_def del: addClient.simps)
qed

subsection \<open>Removing a connection\<close>

text \<open>
  Claim C9. Removing an id twice in succession leaves the server in the state the first
  removal left: the second call finds no entry and changes nothing, neither the table nor
  the metrics.
\<close>

theorem removeClient_idempotent:
  "removeClient (removeClient s cid) cid = removeClient s cid"
proof -
  have "map_of (clients (removeClient s cid)) cid = None"
    by (simp add: clients_removeClient map_of_delete_same)
  then show ?thesis
    by (simp add: removeClient_def [of "removeClient s cid"])
qed

subsection \<open>The cleanup pass\<close>

text \<open>
  Claim C6, as the code has it. The cleanup pass removes exactly the entries whose
  connection is in state DISCONNECTING or DISCONNECTED; an entry in state CONNECTING,
  AUTHENTICATING or AUTHENTICATED is kept as it is, and an id without an entry has none
  afterwards.
\<close>

theorem cleanup_removes_not_connected:
  "wf_clients s \<Longrightarrow>
     (getClient s cid = None \<longrightarrow> getClient (cleanupDisconnectedClients s) cid = None) \<and>
     (\<forall>c. getClient s cid = Some c \<longrightarrow>
        getClient (cleanupDisconnectedClients s) cid =
          (if state c = DISCONNECTING \<or> state c = DISCONNECTED then None else Some c))"
proof -
  assume wf: "wf_clients s"
  have after: "getClient (cleanupDisconnectedClients s) cid =
      (if cid \<in> set (disconnected_clients s) then None else getClient s cid)"
    by (simp add: getClient_def clients_cleanup AList.restr_conv')
  have collected: "cid \<in> set (disconnected_clients s) \<longleftrightarrow> \<not> isConnected c"
    if c: "getClient s cid = Some c" for c
  proof
    assume "cid \<in> set (disconnected_clients s)"
    then obtain c' where c': "(cid, c') \<in> set (clients s)" "\<not> isConnected c'"
      by (auto simp: disconnected_clients_def)
    with wf have "map_of (clients s) cid = Some c'"
      by (simp add: wf_clients_def)
    with c c' show "\<not> isConnected c"
      by (simp add: getClient_def)
  next
    assume "\<not> isConnected c"
    moreover from c have "(cid, c) \<in> set (clients s)"
      unfolding getClient_def by (rule map_of_SomeD)
    ultimately show "cid \<in> set (disconnected_clients s)"
      by (force simp: disconnected_clients_def)
  qed
  have absent: "cid \<notin> set (disconnected_clients s)" if "getClient s cid = None"
    using that by (auto simp: disconnected_clients_def getClient_def map_of_eq_None_iff)
  show ?thesis
    using after collected absent by (auto simp: isConnected_def)
qed

text \<open>
  The theorem at a registry with a connection that is disconnecting and one that is still
  authenticating.
\<close>

theorem cleanup_removes_not_connected_witness:
  "wf_clients (addClient (addClient (initial_server None) (Some draining)) (Some waiting)) \<and>
   getClient (addClient (addClient (initial_server None) (Some draining)) (Some waiting)) 7 = Some draining \<and>
   getClient (addClient (addClient (initial_server None) (Some draining)) (Some waiting)) 3 = Some waiting \<and>
   getClient (cleanupDisconnectedClients
     (addClient (addClient (initial_server None) (Some draining)) (Some waiting))) 7 = None \<and>
   getClient (cleanupDisconnectedClients
     (addClient (addClient (initial_server None) (Some draining)) (Some waiting))) 3 = Some waiting \<and>
   getClient (cleanupDisconnectedClients
     (addClient (addClient (initial_server None) (Some draining)) (Some waiting))) 9 = None"
proof -
  let ?s = "addClient (addClient (initial_server None) (Some draining)) (Some waiting)"
  have w: "wf_clients ?s"
    by (simp add: wf_clients_def initial_server_def on_metrics_def getId_def draining_def waiting_def)
  have g: "getClient ?s 7 = Some draining" "getClient ?s 3 = Some waiting" "getClient ?s 9 = None"
    by (simp_all add: getClient_def initial_server_def on_metrics_def getId_def draining_def waiting_def)
  show ?thesis
    using w g cleanup_removes_not_connected [OF w, of 7]
      cleanup_removes_not_connected [OF w, of 3] cleanup_removes_not_connected [OF w, of 9]
    by (simp add: draining_def waiting_def del: addClient.simps)
qed

text \<open>
  Claim C6 as stated fails: a connection in state DISCONNECTING, which has not reached the
  final state, is removed by the cleanup pass.
\<close>

theorem cleanup_disconnecting_counterexample:
  "getClient (addClient (initial_server None) (Some draining)) 7 = Some draining \<and>
   state draining = DISCONNECTING \<and>
   getClient (cleanupDisconnectedClients (addClient (initial_server None) (Some draining))) 7 = None"
  by (simp add: getClient_def cleanupDisconnectedClients_def disconnected_clients_def
        removeClient_def initial_server_def on_metrics_def getId_def draining_def isConnected_def)

subsection \<open>Broadcast\<close>

lemma broadcast_loop_running:
  "\<not> stop_flag p \<Longrightarrow>
   broadcast_loop cl m sid p =
     (None, p\<lparr>tasks := tasks p @ map (\<lambda>c. SendEncrypted (getId c) m)
        (map snd (filter (\<lambda>(cid, client). cid \<noteq> sid \<and> isAuthenticated client) cl))\<rparr>)"
proof (induction cl arbitrary: p)
  case Nil
  show ?case by simp
next
  case (Cons kc cl)
  obtain k c where kc: "kc = (k, c)" by (cases kc)
  show ?case
  proof (cases "k \<noteq> sid \<and> isAuthenticated c")
    case True
    let ?p = "p\<lparr>tasks := tasks p @ [SendEncrypted (getId c) m]\<rparr>"
    have "\<not> stop_flag ?p" using Cons.prems by simp
    from Cons.IH [OF this] True Cons.prems show ?thesis
      by (simp add: kc enqueue_def)
  next
    case False
    with Cons show ?thesis by (auto simp: kc)
  qed
qed

text \<open>
  Claim C10. In every reachable state, and more generally whenever the pool is not stopped
  or the call returns normally, a broadcast adds to the counter of sent messages the size
  of the registry, less one when the sender id is not 0, in 64-bit arithmetic, whatever
  the states of the connections; the tasks it enqueues are one for each authenticated
  connection other than the sender. So the count can exceed the number of recipients, and
  does in some reachable state.
\<close>

theorem broadcastMessage_counter:
  "(reachable s \<or> \<not> stop_flag (thread_pool s) \<or> fst (broadcastMessage s m sid) = None \<longrightarrow>
      fst (broadcastMessage s m sid) = None \<and>
      total_messages_sent (snd (broadcastMessage s m sid)) =
        total_messages_sent s +
          (of_nat (getConnectedClientsCount s) - (if sid \<noteq> 0 then 1 else 0))) \<and>
   (reachable s \<or> \<not> stop_flag (thread_pool s) \<longrightarrow>
      tasks (thread_pool (snd (broadcastMessage s m sid))) =
        tasks (thread_pool s) @ map (\<lambda>c. SendEncrypted (getId c) m) (recipients s sid)) \<and>
   (\<exists>s' sid'. reachable s' \<and>
      length (recipients s' sid') < unat (broadcast_count s' sid'))"
proof (intro conjI impI)
  have running: "\<not> stop_flag (thread_pool s)"
    if "reachable s \<or> \<not> stop_flag (thread_pool s)"
    using that reachable_running by blast
  have normal: "fst (broadcastMessage s m sid) = None"
    and enqueued: "tasks (thread_pool (snd (broadcastMessage s m sid))) =
      tasks (thread_pool s) @ map (\<lambda>c. SendEncrypted (getId c) m) (recipients s sid)"
    if run: "\<not> stop_flag (thread_pool s)"
    using broadcast_loop_running [OF run, of "clients s" m sid]
    by (simp_all add: broadcastMessage_def thread_pool_on_metrics recipients_def)
  have counted: "total_messages_sent (snd (broadcastMessage s m sid)) =
      total_messages_sent s + (of_nat (getConnectedClientsCount s) - (if sid \<noteq> 0 then 1 else 0))"
    if "fst (broadcastMessage s m sid) = None"
    using that
    by (cases "broadcast_loop (clients s) m sid (thread_pool s)")
       (auto simp: broadcastMessage_def total_on_metrics broadcast_count_def
          getConnectedClientsCount_def split: option.splits)
  {
    assume "reachable s \<or> \<not> stop_flag (thread_pool s) \<or> fst (broadcastMessage s m sid) = None"
    then show n: "fst (broadcastMessage s m sid) = None"
      using running normal by blast
    then show "total_messages_sent (snd (broadcastMessage s m sid)) =
      total_messages_sent s + (of_nat (getConnectedClientsCount s) - (if sid \<noteq> 0 then 1 else 0))"
      by (rule counted)
  }
  {
    assume "reachable s \<or> \<not> stop_flag (thread_pool s)"
    then show "tasks (thread_pool (snd (broadcastMessage s m sid))) =
      tasks (thread_pool s) @ map (\<lambda>c. SendEncrypted (getId c) m) (recipients s sid)"
      using running enqueued by blast
  }
  let ?s0 = "addClient (initial_server None) (Some waiting)"
  have "reachable ?s0"
    by (intro reachable.add reachable.initial)
  moreover have "length (recipients ?s0 0) < unat (broadcast_count ?s0 0)"
    by (simp add: recipients_def broadcast_count_def initial_server_def on_metrics_def
          getId_def waiting_def isAuthenticated_def)
  ultimately show "\<exists>s' sid'. reachable s' \<and>
        length (recipients s' sid') < unat (broadcast_count s' sid')"
    by blast
qed

text \<open>
  The theorem at a registry of one authenticated and one authenticating connection, and at
  the empty registry, where a sender id other than 0 makes the count wrap.
\<close>

theorem broadcastMessage_counter_witness:
  "reachable (addClient (addClient (initial_server None) (Some alice1)) (Some waiting)) \<and>
   \<not> stop_flag (thread_pool (addClient (addClient (initial_server None) (Some alice1)) (Some waiting))) \<and>
   fst (broadcastMessage
      (addClient (addClient (initial_server None) (Some alice1)) (Some waiting)) ''hi'' 9) = None \<and>
   total_messages_sent (snd (broadcastMessage
      (addClient (addClient (initial_server None) (Some alice1)) (Some waiting)) ''hi'' 9)) = 1 \<and>
   tasks (thread_pool (snd (broadcastMessage
      (addClient (addClient (initial_server None) (Some alice1)) (Some waiting)) ''hi'' 9))) =
     [SendEncrypted 1 ''hi''] \<and>
   tasks (thread_pool (snd (broadcastMessage
      (addClient (addClient (initial_server None) (Some alice1)) (Some waiting)) ''hi'' 1))) = [] \<and>
   total_messages_sent (snd (broadcastMessage
      (addClient (addClient (initial_server None) (Some alice1)) (Some waiting)) ''hi'' 1)) = 1 \<and>
   total_messages_sent (snd (broadcastMessage (initial_server None) ''hi'' 1)) = - 1"
proof -
  define s where "s = addClient (addClient (initial_server None) (Some alice1)) (Some waiting)"
  define s0 where "s0 = initial_server None"
  have r: "reachable s" "reachable s0"
    unfolding s_def s0_def by (intro reachable.add reachable.initial)+
  have run: "tasks (thread_pool s) = []" "\<not> stop_flag (thread_pool s)"
    by (simp_all add: s_def thread_pool_addClient initial_server_def del: addClient.simps)
  have c: "total_messages_sent s = 0" "getConnectedClientsCount s = 2"
    "recipients s 9 = [alice1]" "recipients s 1 = []" "getId alice1 = 1"
    by (simp_all add: s_def getConnectedClientsCount_def recipients_def isAuthenticated_def
          initial_server_def on_metrics_def getId_def alice1_def waiting_def)
  have c0: "total_messages_sent s0 = 0" "getConnectedClientsCount s0 = 0"
    by (simp_all add: s0_def getConnectedClientsCount_def initial_server_def)
  have "reachable s \<and> \<not> stop_flag (thread_pool s) \<and>
    fst (broadcastMessage s ''hi'' 9) = None \<and>
    total_messages_sent (snd (broadcastMessage s ''hi'' 9)) = 1 \<and>
    tasks (thread_pool (snd (broadcastMessage s ''hi'' 9))) = [SendEncrypted 1 ''hi''] \<and>
    tasks (thread_pool (snd (broadcastMessage s ''hi'' 1))) = [] \<and>
    total_messages_sent (snd (broadcastMessage s ''hi'' 1)) = 1 \<and>
    total_messages_sent (snd (broadcastMessage s0 ''hi'' 1)) = - 1"
    using r run c c0 broadcastMessage_counter [of s "''hi''" 9]
      broadcastMessage_counter [of s "''hi''" 1] broadcastMessage_counter [of s0 "''hi''" 1]
    by simp
  then show ?thesis
    unfolding s_def s0_def .
qed

subsection \<open>Targeted send\<close>

text \<open>
  Claim C5, as the code has it. A targeted send reports nothing to its caller: in every
  reachable state the call returns normally. When the id has no entry or the connection is
  not authenticated, the call has changed nothing; when the connection is authenticated
  and the pool is not stopped, the call enqueues one send task for that connection and
  adds one to the counter of sent messages, the registry being as before. On a stopped
  pool, which no reachable state has, the exception of the pool reaches the caller of a
  send to an authenticated connection, and nothing has changed.
\<close>

theorem sendToClient_effect:
  "(reachable s \<longrightarrow> fst (sendToClient s cid m) = None) \<and>
   (\<not> deliverable s cid \<longrightarrow> sendToClient s cid m = (None, s)) \<and>
   (deliverable s cid \<and> stop_flag (thread_pool s) \<longrightarrow>
      sendToClient s cid m = (Some (RuntimeError ''enqueue on stopped ThreadPool''), s)) \<and>
   (\<forall>c. getClient s cid = Some c \<and> isAuthenticated c \<and> \<not> stop_flag (thread_pool s) \<longrightarrow>
      fst (sendToClient s cid m) = None \<and>
      snd (sendToClient s cid m) \<noteq> s \<and>
      clients (snd (sendToClient s cid m)) = clients s \<and>
      tasks (thread_pool (snd (sendToClient s cid m))) =
        tasks (thread_pool s) @ [SendEncrypted (getId c) m] \<and>
      total_messages_sent (snd (sendToClient s cid m)) = total_messages_sent s + 1)"
proof (intro conjI allI impI)
  assume "reachable s"
  then have "\<not> stop_flag (thread_pool s)"
    by (rule reachable_running)
  then show "fst (sendToClient s cid m) = None"
    by (simp add: sendToClient_def enqueue_def split: option.split)
next
  assume "\<not> deliverable s cid"
  then show "sendToClient s cid m = (None, s)"
    by (simp add: deliverable_def sendToClient_def split: option.splits)
next
  assume "deliverable s cid \<and> stop_flag (thread_pool s)"
  then show "sendToClient s cid m = (Some (RuntimeError ''enqueue on stopped ThreadPool''), s)"
    by (cases "getClient s cid") (simp_all add: deliverable_def sendToClient_def enqueue_def)
next
  fix c
  assume a: "getClient s cid = Some c \<and> isAuthenticated c \<and> \<not> stop_flag (thread_pool s)"
  then show "fst (sendToClient s cid m) = None"
    and "clients (snd (sendToClient s cid m)) = clients s"
    and t: "tasks (thread_pool (snd (sendToClient s cid m))) =
        tasks (thread_pool s) @ [SendEncrypted (getId c) m]"
    and "total_messages_sent (snd (sendToClient s cid m)) = total_messages_sent s + 1"
    by (simp_all add: sendToClient_def enqueue_def clients_on_metrics thread_pool_on_metrics
          total_on_metrics)
  from t have "tasks (thread_pool (snd (sendToClient s cid m))) \<noteq> tasks (thread_pool s)"
    by simp
  then show "snd (sendToClient s cid m) \<noteq> s"
    by auto
qed

text \<open>
  The theorem at a registry of one authenticated and one authenticating connection, with
  the pool running and with the pool stopped.
\<close>

theorem sendToClient_effect_witness:
  "reachable (addClient (addClient (initial_server None) (Some alice1)) (Some waiting)) \<and>
   \<not> deliverable (addClient (addClient (initial_server None) (Some alice1)) (Some waiting)) 3 \<and>
   sendToClient (addClient (addClient (initial_server None) (Some alice1)) (Some waiting)) 3 ''hi'' =
     (None, addClient (addClient (initial_server None) (Some alice1)) (Some waiting)) \<and>
   getClient (addClient (addClient (initial_server None) (Some alice1)) (Some waiting)) 1 = Some alice1 \<and>
   isAuthenticated alice1 \<and>
   tasks (thread_pool (snd (sendToClient
      (addClient (addClient (initial_server None) (Some alice1)) (Some waiting)) 1 ''hi''))) =
     [SendEncrypted 1 ''hi''] \<and>
   total_messages_sent (snd (sendToClient
      (addClient (addClient (initial_server None) (Some alice1)) (Some waiting)) 1 ''hi'')) = 1 \<and>
   fst (sendToClient
      ((addClient (addClient (initial_server None) (Some alice1)) (Some waiting))
         \<lparr>thread_pool := \<lparr>tasks = [], stop_flag = True\<rparr>\<rparr>) 1 ''hi'') =
     Some (RuntimeError ''enqueue on stopped ThreadPool'')"
proof -
  define s where "s = addClient (addClient (initial_server None) (Some alice1)) (Some waiting)"
  define s' where "s' = s\<lparr>thread_pool := \<lparr>tasks = [], stop_flag = True\<rparr>\<rparr>"
  have g: "getClient s 1 = Some alice1" "getClient s 3 = Some waiting"
    by (simp_all add: s_def getClient_def initial_server_def on_metrics_def getId_def
          alice1_def waiting_def)
  have a: "isAuthenticated alice1" "\<not> isAuthenticated waiting" "getId alice1 = 1"
    by (simp_all add: isAuthenticated_def getId_def alice1_def waiting_def)
  have p: "tasks (thread_pool s) = []" "\<not> stop_flag (thread_pool s)" "total_messages_sent s = 0"
    by (simp_all add: s_def initial_server_def on_metrics_def)
  have d: "\<not> deliverable s 3"
    by (simp add: deliverable_def g a)
  have d': "deliverable s' 1 \<and> stop_flag (thread_pool s')"
    using g a by (simp add: deliverable_def s'_def getClient_def)
  have r: "reachable s"
    unfolding s_def by (intro reachable.add reachable.initial)
  have "reachable s \<and> \<not> deliverable s 3 \<and> sendToClient s 3 ''hi'' = (None, s) \<and>
    getClient s 1 = Some alice1 \<and> isAuthenticated alice1 \<and>
    tasks (thread_pool (snd (sendToClient s 1 ''hi''))) = [SendEncrypted 1 ''hi''] \<and>
    total_messages_sent (snd (sendToClient s 1 ''hi'')) = 1 \<and>
    fst (sendToClient s' 1 ''hi'') = Some (RuntimeError ''enqueue on stopped ThreadPool'')"
    using r d d' g a p sendToClient_effect [of s 3 "''hi''"] sendToClient_effect [of s 1 "''hi''"]
      sendToClient_effect [of s' 1 "''hi''"]
    by simp
  then show ?thesis
    unfolding s'_def s_def .
qed

text \<open>
  Claim C5 as stated fails: for an id that has no entry the call returns normally, with no
  error for the caller, exactly as the call for a registered, authenticated connection
  does.
\<close>

theorem sendToClient_not_found_counterexample:
  "getClient (addClient (initial_server None) (Some alice1)) 99 = None \<and>
   sendToClient (addClient (initial_server None) (Some alice1)) 99 ''hi'' =
     (None, addClient (initial_server None) (Some alice1)) \<and>
   fst (sendToClient (addClient (initial_server None) (Some alice1)) 1 ''hi'') = None"
  by (simp add: sendToClient_def getClient_def enqueue_def initial_server_def on_metrics_def
        getId_def alice1_def isAuthenticated_def)

section \<open>Properties of the entry point\<close>

lemma parse_args_exit: "parse_args f argv opts = Inl (Exit n) \<Longrightarrow> n = 0 \<or> n = 1"
proof (induction f argv opts rule: parse_args.induct)
  case (1 f opts)
  then show ?case by simp
next
  case (2 f arg rest opts)
  from "2.prems" "2.IH" show ?case
    by (auto split: if_splits list.splits option.splits)
qed

lemma run_server_exit: "run_server env opts = Some (Exit n) \<Longrightarrow> n = 0 \<or> n = 1"
  by (auto simp: run_server_def split: outcome.splits bool.splits serving.splits)

lemma run_server_started:
  "started env opts \<Longrightarrow>
   run_server env opts = (case serve env of Signalled \<Rightarrow> Some (Exit 0)
      | ServingThrows \<Rightarrow> Some (Exit 1) | Forever \<Rightarrow> None)"
  by (simp add: run_server_def started_def)

lemma run_server_not_started:
  "\<not> started env opts \<Longrightarrow> run_server env opts = Some (Exit 1)"
  by (auto simp: run_server_def started_def split: outcome.splits bool.splits)

lemma run_server_zero:
  "run_server env opts = Some (Exit 0) \<longleftrightarrow> started env opts \<and> serve env = Signalled"
proof (cases "started env opts")
  case True
  then show ?thesis
    by (simp add: run_server_started split: serving.splits)
next
  case False
  then show ?thesis
    by (simp add: run_server_not_started)
qed

subsection \<open>One argument at a time\<close>

lemma parse_args_help:
  "help_request a \<Longrightarrow> parse_args f (a # rest) opts = Inl (Exit 0)"
  unfolding help_request_def by (elim disjE) (simp_all split del: if_split)

lemma parse_args_unknown:
  "\<not> known_option a \<Longrightarrow> parse_args f (a # rest) opts = Inl (Exit 1)"
  by (simp add: known_option_def help_request_def takes_value_def takes_number_def
        split del: if_split)

lemma parse_args_daemon:
  "a = ''-d'' \<or> a = ''--daemon'' \<Longrightarrow>
   parse_args f (a # rest) opts = parse_args f rest (opts\<lparr>daemon_mode := True\<rparr>)"
  by (elim disjE) (simp_all split del: if_split)

lemma parse_args_missing_value:
  "takes_value a \<Longrightarrow> parse_args f [a] opts = Inl (Exit 1)"
  unfolding takes_value_def takes_number_def by (elim disjE) (simp_all split del: if_split)

lemma parse_args_bad_number:
  "takes_number a \<Longrightarrow> f v = None \<Longrightarrow> parse_args f (a # v # rest) opts = Inl Abort"
  unfolding takes_number_def by (elim disjE) (simp_all split del: if_split)

lemma parse_args_number:
  "takes_number a \<Longrightarrow> f v = Some n \<Longrightarrow>
   parse_args f (a # v # rest) opts =
     parse_args f rest (if a = ''-p'' \<or> a = ''--port'' then opts\<lparr>port := n\<rparr> else opts\<lparr>threads := n\<rparr>)"
  unfolding takes_number_def by (elim disjE) (simp_all split del: if_split)

lemma parse_args_string:
  "takes_value a \<Longrightarrow> \<not> takes_number a \<Longrightarrow>
   parse_args f (a # v # rest) opts =
     parse_args f rest
       (if a = ''-c'' \<or> a = ''--config'' then opts\<lparr>config_file := v\<rparr> else opts\<lparr>log_level := v\<rparr>)"
  unfolding takes_value_def by (elim disjE) (simp_all split del: if_split)

lemma argument_cases:
  obtains (request) "help_request a" | (unknown) "\<not> known_option a"
  | (daemon) "a = ''-d'' \<or> a = ''--daemon''"
  | (number) "takes_number a" | (string) "takes_value a" "\<not> takes_number a"
  unfolding known_option_def by blast

subsection \<open>The whole command line\<close>

text \<open>
  Arguments that are read without ending the process are read the same way whatever
  follows them.
\<close>

lemma parse_args_append:
  "parse_args f pre opts = Inr opts' \<Longrightarrow> parse_args f (pre @ rest) opts = parse_args f rest opts'"
proof (induction pre arbitrary: opts rule: length_induct)
  case (1 pre)
  show ?case
  proof (cases pre)
    case Nil
    with "1.prems" show ?thesis by simp
  next
    case (Cons a pre1)
    note ih = "1.IH" [rule_format]
    show ?thesis
    proof (cases a rule: argument_cases)
      case request
      with "1.prems" Cons show ?thesis
        by (simp add: parse_args_help del: parse_args.simps(2))
    next
      case unknown
      with "1.prems" Cons show ?thesis
        by (simp add: parse_args_unknown del: parse_args.simps(2))
    next
      case daemon
      with "1.prems" Cons ih [of pre1 "opts\<lparr>daemon_mode := True\<rparr>"] show ?thesis
        by (simp add: parse_args_daemon del: parse_args.simps(2))
    next
      case number
      then have tv: "takes_value a"
        by (simp add: takes_value_def del: parse_args.simps(2))
      show ?thesis
      proof (cases pre1)
        case Nil
        with "1.prems" Cons tv show ?thesis
          by (simp add: parse_args_missing_value del: parse_args.simps(2))
      next
        case (Cons v pre2)
        show ?thesis
        proof (cases "f v")
          case None
          with "1.prems" \<open>pre = a # pre1\<close> Cons number show ?thesis
            by (simp add: parse_args_bad_number del: parse_args.simps(2))
        next
          case (Some n)
          let ?opts = "if a = ''-p'' \<or> a = ''--port'' then opts\<lparr>port := n\<rparr> else opts\<lparr>threads := n\<rparr>"
          from "1.prems" \<open>pre = a # pre1\<close> Cons ih [of pre2 ?opts] show ?thesis
            by (simp add: parse_args_number [of a f v n, OF number Some] del: parse_args.simps(2))
        qed
      qed
    next
      case string
      show ?thesis
      proof (cases pre1)
        case Nil
        with "1.prems" Cons string show ?thesis
          by (simp add: parse_args_missing_value del: parse_args.simps(2))
      next
        case (Cons v pre2)
        let ?opts = "if a = ''-c'' \<or> a = ''--config'' then opts\<lparr>config_file := v\<rparr>
          else opts\<lparr>log_level := v\<rparr>"
        from "1.prems" \<open>pre = a # pre1\<close> Cons ih [of pre2 ?opts] show ?thesis
          by (simp add: parse_args_string [of a, OF string] del: parse_args.simps(2))
      qed
    qed
  qed
qed

text \<open>
  The command line ends the process with code 0 only at a request for help or for the
  version that follows arguments read without ending the process.
\<close>

lemma parse_args_zero:
  "parse_args f argv opts = Inl (Exit 0) \<Longrightarrow>
   \<exists>pre a rest opts'. argv = pre @ a # rest \<and> parse_args f pre opts = Inr opts' \<and> help_request a"
proof (induction argv arbitrary: opts rule: length_induct)
  case (1 argv)
  note ih = "1.IH" [rule_format]
  show ?case
  proof (cases argv)
    case Nil
    with "1.prems" show ?thesis by simp
  next
    case (Cons a argv1)
    show ?thesis
    proof (cases a rule: argument_cases)
      case request
      with Cons have "argv = [] @ a # argv1 \<and> parse_args f [] opts = Inr opts \<and> help_request a"
        by simp
      then show ?thesis by blast
    next
      case unknown
      with "1.prems" Cons show ?thesis
        by (simp add: parse_args_unknown del: parse_args.simps(2))
    next
      case daemon
      let ?opts = "opts\<lparr>daemon_mode := True\<rparr>"
      from "1.prems" Cons daemon have "parse_args f argv1 ?opts = Inl (Exit 0)"
        by (simp add: parse_args_daemon del: parse_args.simps(2))
      with ih [of argv1 ?opts] Cons obtain pre b rest opts' where
        "argv1 = pre @ b # rest" "parse_args f pre ?opts = Inr opts'" "help_request b"
        by auto
      with Cons daemon have "argv = (a # pre) @ b # rest \<and>
          parse_args f (a # pre) opts = Inr opts' \<and> help_request b"
        by (simp add: parse_args_daemon del: parse_args.simps(2))
      then show ?thesis by blast
    next
      case number
      then have tv: "takes_value a"
        by (simp add: takes_value_def del: parse_args.simps(2))
      show ?thesis
      proof (cases argv1)
        case Nil
        with "1.prems" Cons tv show ?thesis
          by (simp add: parse_args_missing_value del: parse_args.simps(2))
      next
        case (Cons v argv2)
        show ?thesis
        proof (cases "f v")
          case None
          with "1.prems" \<open>argv = a # argv1\<close> Cons number show ?thesis
            by (simp add: parse_args_bad_number del: parse_args.simps(2))
        next
          case (Some n)
          let ?opts = "if a = ''-p'' \<or> a = ''--port'' then opts\<lparr>port := n\<rparr> else opts\<lparr>threads := n\<rparr>"
          note step = parse_args_number [of a f v n, OF number Some]
          from "1.prems" \<open>argv = a # argv1\<close> Cons have "parse_args f argv2 ?opts = Inl (Exit 0)"
            by (simp add: step del: parse_args.simps(2))
          with ih [of argv2 ?opts] \<open>argv = a # argv1\<close> Cons obtain pre b rest opts' where
            "argv2 = pre @ b # rest" "parse_args f pre ?opts = Inr opts'" "help_request b"
            by auto
          with \<open>argv = a # argv1\<close> Cons have "argv = (a # v # pre) @ b # rest \<and>
              parse_args f (a # v # pre) opts = Inr opts' \<and> help_request b"
            by (simp add: step del: parse_args.simps(2))
          then show ?thesis by blast
        qed
      qed
    next
      case string
      show ?thesis
      proof (cases argv1)
        case Nil
        with "1.prems" Cons string show ?thesis
          by (simp add: parse_args_missing_value del: parse_args.simps(2))
      next
        case (Cons v argv2)
        let ?opts = "if a = ''-c'' \<or> a = ''--config'' then opts\<lparr>config_file := v\<rparr>
          else opts\<lparr>log_level := v\<rparr>"
        note step = parse_args_string [of a, OF string]
        from "1.prems" \<open>argv = a # argv1\<close> Cons have "parse_args f argv2 ?opts = Inl (Exit 0)"
          by (simp add: step del: parse_args.simps(2))
        with ih [of argv2 ?opts] \<open>argv = a # argv1\<close> Cons obtain pre b rest opts' where
          "argv2 = pre @ b # rest" "parse_args f pre ?opts = Inr opts'" "help_request b"
          by auto
        with \<open>argv = a # argv1\<close> Cons have "argv = (a # v # pre) @ b # rest \<and>
            parse_args f (a # v # pre) opts = Inr opts' \<and> help_request b"
          by (simp add: step del: parse_args.simps(2))
        then show ?thesis by blast
      qed
    qed
  qed
qed

lemma main_after:
  "parse_args (stoi env) pre default_options = Inr opts \<Longrightarrow>
   main env (pre @ rest) =
     (case parse_args (stoi env) rest opts of Inl status \<Rightarrow> Some status | Inr opts' \<Rightarrow> run_server env opts')"
  by (simp add: main_def parse_args_append del: parse_args.simps(2))

text \<open>
  Claim C7, as the code has it. When the process exits, its code is 0 or 1, never 2. The
  code is 0 exactly in two cases: at a request for help or for the version on the command
  line, with nothing but well-formed settings before it, and when a handled signal ends a
  run that had started. A command line is read argument by argument: after well-formed
  settings, an argument that the usage does not list, or an option with its value missing,
  makes the process exit with code 1, and a number that cannot be read aborts the process
  without an exit code. Once the command line is read, the code is 1 when startup fails
  (logging, loading the configuration, initialising or starting the server, which is where
  binding happens) and 1 when an exception leaves the serving loop after a successful
  startup; the process does not exit while the serving loop runs.
\<close>

theorem main_exit_codes:
  "(\<forall>n. main env argv = Some (Exit n) \<longrightarrow> n = 0 \<or> n = 1) \<and>
   (main env argv = Some (Exit 0) \<longleftrightarrow>
      (\<exists>pre a rest opts. argv = pre @ a # rest \<and>
         parse_args (stoi env) pre default_options = Inr opts \<and> help_request a) \<or>
      (\<exists>opts. parse_args (stoi env) argv default_options = Inr opts \<and>
         started env opts \<and> serve env = Signalled)) \<and>
   (\<forall>opts. parse_args (stoi env) pre default_options = Inr opts \<longrightarrow>
      (help_request a \<longrightarrow> main env (pre @ a # rest) = Some (Exit 0)) \<and>
      (\<not> known_option a \<longrightarrow> main env (pre @ a # rest) = Some (Exit 1)) \<and>
      (takes_value a \<longrightarrow> main env (pre @ [a]) = Some (Exit 1)) \<and>
      (takes_number a \<and> stoi env v = None \<longrightarrow> main env (pre @ a # v # rest) = Some Abort)) \<and>
   (\<forall>opts. parse_args (stoi env) argv default_options = Inr opts \<longrightarrow>
      (\<not> started env opts \<longrightarrow> main env argv = Some (Exit 1)) \<and>
      (started env opts \<and> serve env = ServingThrows \<longrightarrow> main env argv = Some (Exit 1)) \<and>
      (started env opts \<and> serve env = Signalled \<longrightarrow> main env argv = Some (Exit 0)) \<and>
      (started env opts \<and> serve env = Forever \<longrightarrow> main env argv = None))"
proof (intro conjI)
  show "\<forall>n. main env argv = Some (Exit n) \<longrightarrow> n = 0 \<or> n = 1"
    by (auto simp: main_def split: sum.splits dest: parse_args_exit run_server_exit)
  show "main env argv = Some (Exit 0) \<longleftrightarrow>
      (\<exists>pre a rest opts. argv = pre @ a # rest \<and>
         parse_args (stoi env) pre default_options = Inr opts \<and> help_request a) \<or>
      (\<exists>opts. parse_args (stoi env) argv default_options = Inr opts \<and>
         started env opts \<and> serve env = Signalled)"
    (is "?zero \<longleftrightarrow> ?asked \<or> ?signalled")
  proof
    assume zero: ?zero
    show "?asked \<or> ?signalled"
    proof (cases "parse_args (stoi env) argv default_options")
      case (Inl status)
      with zero have "parse_args (stoi env) argv default_options = Inl (Exit 0)"
        by (simp add: main_def)
      then have ?asked
        by (rule parse_args_zero)
      then show ?thesis ..
    next
      case (Inr opts)
      with zero have "run_server env opts = Some (Exit 0)"
        by (simp add: main_def)
      with Inr have ?signalled
        by (simp add: run_server_zero)
      then show ?thesis ..
    qed
  next
    assume "?asked \<or> ?signalled"
    then show ?zero
    proof
      assume ?asked
      then obtain pre a rest opts where "argv = pre @ a # rest"
        "parse_args (stoi env) pre default_options = Inr opts" "help_request a"
        by blast
      then show ?zero
        by (simp add: main_after parse_args_help del: parse_args.simps(2))
    next
      assume ?signalled
      then show ?zero
        by (auto simp: main_def run_server_zero)
    qed
  qed
  show "\<forall>opts. parse_args (stoi env) pre default_options = Inr opts \<longrightarrow>
      (help_request a \<longrightarrow> main env (pre @ a # rest) = Some (Exit 0)) \<and>
      (\<not> known_option a \<longrightarrow> main env (pre @ a # rest) = Some (Exit 1)) \<and>
      (takes_value a \<longrightarrow> main env (pre @ [a]) = Some (Exit 1)) \<and>
      (takes_number a \<and> stoi env v = None \<longrightarrow> main env (pre @ a # v # rest) = Some Abort)"
    by (simp add: main_after parse_args_help parse_args_unknown parse_args_missing_value
          parse_args_bad_number del: parse_args.simps(2))
  show "\<forall>opts. parse_args (stoi env) argv default_options = Inr opts \<longrightarrow>
      (\<not> started env opts \<longrightarrow> main env argv = Some (Exit 1)) \<and>
      (started env opts \<and> serve env = ServingThrows \<longrightarrow> main env argv = Some (Exit 1)) \<and>
      (started env opts \<and> serve env = Signalled \<longrightarrow> main env argv = Some (Exit 0)) \<and>
      (started env opts \<and> serve env = Forever \<longrightarrow> main env argv = None)"
    by (simp add: main_def run_server_not_started run_server_started)
qed

text \<open>
  The theorem at a run that a signal ends, a run whose serving loop throws, a run whose
  configuration file does not load, and at command lines that set the port and then ask
  for help or the version, name an unknown option, leave out the value of an option, or
  give a port that is no number.
\<close>

theorem main_exit_codes_witness:
  "main healthy [''--port'', ''9000''] = Some (Exit 0) \<and>
   main (healthy\<lparr>serve := ServingThrows\<rparr>) [''--port'', ''9000''] = Some (Exit 1) \<and>
   main healthy [''--config'', ''missing.json''] = Some (Exit 1) \<and>
   main healthy [''--port'', ''9000'', ''--help''] = Some (Exit 0) \<and>
   main healthy [''--port'', ''9000'', ''-v'', ''--bogus''] = Some (Exit 0) \<and>
   main healthy [''--port'', ''9000'', ''--bogus''] = Some (Exit 1) \<and>
   main healthy [''--port'', ''9000'', ''--config''] = Some (Exit 1) \<and>
   main healthy [''--port'', ''9000'', ''--threads'', ''many''] = Some Abort"
proof -
  define port where "port = [''--port'', ''9000'']"
  have p: "parse_args (stoi e) port default_options = Inr (default_options\<lparr>port := 9000\<rparr>)"
    if "stoi e = stoi healthy" for e :: environment
    using that by (simp add: healthy_def port_def)
  have q: "parse_args (stoi healthy) [''--config'', ''missing.json''] default_options =
      Inr (default_options\<lparr>config_file := ''missing.json''\<rparr>)"
    by simp
  have s: "started healthy (default_options\<lparr>port := 9000\<rparr>)"
    "started (healthy\<lparr>serve := ServingThrows\<rparr>) (default_options\<lparr>port := 9000\<rparr>)"
    "\<not> started healthy (default_options\<lparr>config_file := ''missing.json''\<rparr>)"
    by (simp_all add: started_def healthy_def default_options_def)
  have v: "serve healthy = Signalled" "serve (healthy\<lparr>serve := ServingThrows\<rparr>) = ServingThrows"
    "stoi healthy ''many'' = None"
    by (simp_all add: healthy_def)
  have a: "help_request ''--help''" "help_request ''-v''" "\<not> known_option ''--bogus''"
    "takes_value ''--config''" "takes_number ''--threads''"
    by (simp_all add: help_request_def known_option_def takes_value_def takes_number_def)
  from main_exit_codes [of healthy port] p [of healthy] s(1) v(1)
  have 1: "main healthy port = Some (Exit 0)" by blast
  from main_exit_codes [of "healthy\<lparr>serve := ServingThrows\<rparr>" port]
    p [of "healthy\<lparr>serve := ServingThrows\<rparr>"] s(2) v(2)
  have 2: "main (healthy\<lparr>serve := ServingThrows\<rparr>) port = Some (Exit 1)"
    by auto
  from main_exit_codes [of healthy "[''--config'', ''missing.json'']"] q s(3)
  have 3: "main healthy [''--config'', ''missing.json''] = Some (Exit 1)" by blast
  from main_exit_codes [of healthy _ port "''--help''" "[]"] p [of healthy] a(1)
  have 4: "main healthy (port @ [''--help'']) = Some (Exit 0)" by blast
  from main_exit_codes [of healthy _ port "''-v''" "[''--bogus'']"] p [of healthy] a(2)
  have 5: "main healthy (port @ [''-v'', ''--bogus'']) = Some (Exit 0)" by blast
  from main_exit_codes [of healthy _ port "''--bogus''" "[]"] p [of healthy] a(3)
  have 6: "main healthy (port @ [''--bogus'']) = Some (Exit 1)" by blast
  from main_exit_codes [of healthy _ port "''--config''"] p [of healthy] a(4)
  have 7: "main healthy (port @ [''--config'']) = Some (Exit 1)" by blast
  from main_exit_codes [of healthy _ port "''--threads''" "[]" "''many''"] p [of healthy] a(5) v(3)
  have 8: "main healthy (port @ [''--threads'', ''many'']) = Some Abort" by blast
  from 1 2 3 4 5 6 7 8 show ?thesis
    unfolding port_def append.simps by (intro conjI)
qed

text \<open>
  Claim C7 as stated fails: after a successful startup, an exception in the serving loop
  makes the process exit with code 1, not 2.
\<close>

theorem main_runtime_failure_counterexample:
  "started (healthy\<lparr>serve := ServingThrows\<rparr>) default_options \<and>
   main (healthy\<lparr>serve := ServingThrows\<rparr>) [] = Some (Exit 1)"
  by (simp add: main_def run_server_def started_def healthy_def default_options_def)

section \<open>Properties of the session cryptography\<close>

subsection \<open>The counter mode\<close>

lemma xor_twice: "((a :: byte) XOR k) XOR k = a"
  by (simp add: xor.assoc)


lemma map2_xor_twice:
  "length ks = length data \<Longrightarrow> map2 (XOR) (map2 (XOR) data ks) ks = (data :: bytes)"
proof (induction data arbitrary: ks)
  case Nil
  show ?case by simp
next
  case (Cons d data)
  then obtain k ks' where "ks = k # ks'" by (cases ks) auto
  with Cons show ?case by (simp add: xor_twice)
qed



lemma aes256_ctr_involution: "aes256_ctr P key v (aes256_ctr P key v data) = data"
proof -
  have "length (map (keystream P key v) [0..<length data]) = length data" by simp
  from map2_xor_twice [OF this] show ?thesis
    by (simp add: aes256_ctr_def)
qed





subsection \<open>Outcomes of encrypt\<close>

lemma encrypt_with_fields:
  "sequence_number (fst (encrypt_with P s v now plaintext)) = send_sequence s"
  "timestamp (fst (encrypt_with P s v now plaintext)) = now"
  "iv (fst (encrypt_with P s v now plaintext)) = v"
  "ciphertext (fst (encrypt_with P s v now plaintext)) = aes256_ctr P (session_key s) v plaintext"
  "hmac (fst (encrypt_with P s v now plaintext)) =
     expected_tag P (hmac_key s) (fst (encrypt_with P s v now plaintext))"
  "snd (encrypt_with P s v now plaintext) = s\<lparr>send_sequence := send_sequence s + 1, used := v # used s\<rparr>"
  by (simp_all add: encrypt_with_def Let_def expected_tag_def)

lemma encrypt_outcome:
  assumes "encrypt P s now plaintext (e, s')"
  shows "fst (encrypt_with P s (iv e) now plaintext) = e"
    and "s' = s\<lparr>send_sequence := send_sequence s + 1, used := iv e # used s\<rparr>"
    and "length (iv e) = 16" and "iv e \<notin> set (used s)"
    and "sequence_number e = send_sequence s"
    and "ciphertext e = aes256_ctr P (session_key s) (iv e) plaintext"
proof -
  from assms have eq: "encrypt_with P s (iv e) now plaintext = (e, s')"
    and f: "length (iv e) = 16" "iv e \<notin> set (used s)"
    by (simp_all add: encrypt_def)
  from eq show e: "fst (encrypt_with P s (iv e) now plaintext) = e"
    by simp
  from eq have "snd (encrypt_with P s (iv e) now plaintext) = s'"
    by simp
  then show "s' = s\<lparr>send_sequence := send_sequence s + 1, used := iv e # used s\<rparr>"
    by (simp add: encrypt_with_fields)
  from f show "length (iv e) = 16" and "iv e \<notin> set (used s)" .
  from encrypt_with_fields(1) [of P s "iv e" now plaintext]
  show "sequence_number e = send_sequence s"
    unfolding e .
  from encrypt_with_fields(4) [of P s "iv e" now plaintext]
  show "ciphertext e = aes256_ctr P (session_key s) (iv e) plaintext"
    unfolding e .
qed

lemma encrypt_intro:
  "length v = 16 \<Longrightarrow> v \<notin> set (used s) \<Longrightarrow> encrypt P s now plaintext (encrypt_with P s v now plaintext)"
  by (simp add: encrypt_def encrypt_with_fields)

subsection \<open>Decrypting and receiving\<close>

lemma decrypt_encrypt_with:
  assumes "same_keys r s" "in_step r s"
  shows "decrypt P r (fst (encrypt_with P s v now plaintext)) =
     (Inr plaintext, r\<lparr>highest_accepted := Some (send_sequence s)\<rparr>)"
proof -
  let ?e = "fst (encrypt_with P s v now plaintext)"
  from assms(2) have "\<not> replayed r ?e"
    by (auto simp: replayed_def in_step_def encrypt_with_fields split: option.splits)
  moreover from assms(1) have "expected_tag P (hmac_key r) ?e = hmac ?e"
    by (simp add: same_keys_def encrypt_with_fields(5))
  moreover from assms(1) have "aes256_ctr P (session_key r) (iv ?e) (ciphertext ?e) = plaintext"
    by (simp add: same_keys_def encrypt_with_fields aes256_ctr_involution)
  ultimately show ?thesis
    by (simp add: decrypt_def encrypt_with_fields(1))
qed

lemma receive_terminated: "terminated d = Some x \<Longrightarrow> receive P d e = (None, d)"
  by (simp add: receive_def)

lemma receive_replayed:
  "terminated d = None \<Longrightarrow> replayed (manager d) e \<Longrightarrow>
   receive P d e = (None, d\<lparr>terminated := Some ReplayDetected\<rparr>)"
  by (simp add: receive_def decrypt_def)

lemma receive_bad_tag:
  "terminated d = None \<Longrightarrow> \<not> replayed (manager d) e \<Longrightarrow>
   expected_tag P (hmac_key (manager d)) e \<noteq> hmac e \<Longrightarrow>
   receive P d e = (None, d\<lparr>terminated := Some IntegrityFailed\<rparr>)"
  by (simp add: receive_def decrypt_def)

lemma receive_accepted:
  "terminated d = None \<Longrightarrow> \<not> replayed (manager d) e \<Longrightarrow>
   expected_tag P (hmac_key (manager d)) e = hmac e \<Longrightarrow>
   receive P d e = (Some (aes256_ctr P (session_key (manager d)) (iv e) (ciphertext e)),
                    d\<lparr>manager := (manager d)\<lparr>highest_accepted := Some (sequence_number e)\<rparr>\<rparr>)"
  by (simp add: receive_def decrypt_def)

lemma receive_cases:
  obtains (rejected) "fst (receive P d e) = None" "manager (snd (receive P d e)) = manager d"
      "terminated (snd (receive P d e)) \<noteq> None"
  | (accepted) "fst (receive P d e) \<noteq> None" "terminated d = None" "\<not> replayed (manager d) e"
      "expected_tag P (hmac_key (manager d)) e = hmac e"
      "snd (receive P d e) = d\<lparr>manager := (manager d)\<lparr>highest_accepted := Some (sequence_number e)\<rparr>\<rparr>"
proof (cases "terminated d = None \<and> \<not> replayed (manager d) e \<and>
    expected_tag P (hmac_key (manager d)) e = hmac e")
  case True
  then show ?thesis
    by (intro accepted) (simp_all add: receive_accepted)
next
  case False
  then show ?thesis
    by (intro rejected) (auto simp: receive_def decrypt_def split: option.splits)
qed

lemma receive_replayed_rejected:
  "replayed (manager d) e \<Longrightarrow>
   fst (receive P d e) = None \<and> terminated (snd (receive P d e)) \<noteq> None"
  by (auto simp: receive_def decrypt_def split: option.splits)

lemma accepted_sequences_terminated: "terminated d \<noteq> None \<Longrightarrow> accepted_sequences P d es = []"
  by (induction es) (auto simp: receive_def)

lemma accepted_sequences_invariant:
  "(\<forall>x \<in> set (accepted_sequences P d es). \<forall>h. highest_accepted (manager d) = Some h \<longrightarrow> h < x) \<and>
   sorted_wrt (<) (accepted_sequences P d es) \<and>
   highest_accepted (manager (receive_all P d es)) =
     (if accepted_sequences P d es = [] then highest_accepted (manager d)
      else Some (last (accepted_sequences P d es)))"
proof (induction es arbitrary: d)
  case Nil
  show ?case by simp
next
  case (Cons e es)
  let ?d = "snd (receive P d e)"
  note ih = Cons.IH [of ?d]
  show ?case
  proof (cases P d e rule: receive_cases)
    case rejected
    with ih show ?thesis
      by simp
  next
    case accepted
    then obtain p where p: "fst (receive P d e) = Some p"
      by auto
    from accepted(5) have h: "highest_accepted (manager ?d) = Some (sequence_number e)"
      by simp
    from ih h have above: "\<forall>x \<in> set (accepted_sequences P ?d es). sequence_number e < x"
      and sorted: "sorted_wrt (<) (accepted_sequences P ?d es)"
      and final: "highest_accepted (manager (receive_all P ?d es)) =
        (if accepted_sequences P ?d es = [] then Some (sequence_number e)
         else Some (last (accepted_sequences P ?d es)))"
      by simp_all
    from accepted(3) have first: "\<forall>h. highest_accepted (manager d) = Some h \<longrightarrow> h < sequence_number e"
      by (auto simp: replayed_def)
    from above first have "\<forall>x \<in> set (accepted_sequences P ?d es).
        \<forall>h. highest_accepted (manager d) = Some h \<longrightarrow> h < x"
      by (meson order_less_trans)
    with above sorted final first show ?thesis
      by (simp add: p)
  qed
qed

lemma sorted_wrt_less_last: "sorted_wrt (<) xs \<Longrightarrow> x \<in> set xs \<Longrightarrow> (x :: 64 word) \<le> last xs"
  by (induction xs) (auto intro: less_imp_le)

subsection \<open>The example session, evaluated\<close>

lemma example_primitives_simps:
  "aes256 example_primitives key b = map (\<lambda>x. x + sum_list key) b"
  "hmac_sha256 example_primitives key data = key @ data"
  "kdf example_primitives secret = (secret @ [1], secret @ [2])"
  by (simp_all add: example_primitives_def)



lemma established_fields:
  "session_key established = [7, 1]" "hmac_key established = [7, 2]"
  "send_sequence established = 0" "highest_accepted established = None"
  "used established = [[7]]"
  by (simp_all add: established_def deriveSessionKeys_def new_manager_def example_primitives_simps)

lemma after_first_fields:
  "session_key after_first = [7, 1]" "hmac_key after_first = [7, 2]"
  "send_sequence after_first = 1" "highest_accepted after_first = None"
  "used after_first = [replicate 16 1, [7]]"
  by (simp_all add: after_first_def encrypt_with_fields(6) established_fields)

lemma after_second_fields:
  "session_key after_second = [7, 1]" "hmac_key after_second = [7, 2]"
  "send_sequence after_second = 2" "highest_accepted after_second = None"
  "used after_second = [replicate 16 2, replicate 16 1, [7]]"
  by (simp_all add: after_second_def encrypt_with_fields(6) after_first_fields)

lemma envelope_numbers:
  "sequence_number first_envelope = 0" "sequence_number second_envelope = 1"
  "sequence_number third_envelope = 2" "sequence_number forged = 5"
  by (simp_all add: first_envelope_def second_envelope_def third_envelope_def forged_def
        encrypt_with_fields(1) established_fields after_first_fields after_second_fields)

lemma block_not_short: "length v = 16 \<Longrightarrow> v \<noteq> [x]"
  by auto

lemma example_encrypt:
  "encrypt example_primitives established 1000 [72, 105] (first_envelope, after_first)"
  "encrypt example_primitives after_first 1001 [33] (second_envelope, after_second)"
proof -
  have "encrypt example_primitives established 1000 [72, 105]
      (encrypt_with example_primitives established (replicate 16 1) 1000 [72, 105])"
    by (rule encrypt_intro) (simp_all add: established_fields block_not_short)
  then show "encrypt example_primitives established 1000 [72, 105] (first_envelope, after_first)"
    by (simp add: first_envelope_def after_first_def)
  have "replicate 16 (1 :: byte) \<noteq> replicate 16 2"
    by simp
  then have "encrypt example_primitives after_first 1001 [33]
      (encrypt_with example_primitives after_first (replicate 16 2) 1001 [33])"
    by (intro encrypt_intro) (simp_all add: after_first_fields block_not_short)
  then show "encrypt example_primitives after_first 1001 [33] (second_envelope, after_second)"
    by (simp add: second_envelope_def after_second_def)
qed

lemma example_same_keys:
  "same_keys established established" "same_keys after_first established"
  "same_keys (established\<lparr>highest_accepted := Some 0\<rparr>) after_first"
  "same_keys (established\<lparr>highest_accepted := Some 1\<rparr>) after_second"
  by (simp_all add: same_keys_def established_fields after_first_fields after_second_fields)

lemma example_in_step:
  "in_step established established" "in_step after_first established"
  "in_step (established\<lparr>highest_accepted := Some 0\<rparr>) after_first"
  by (simp_all add: in_step_def established_fields after_first_fields)

lemma example_tag_forged:
  "expected_tag example_primitives (hmac_key established) forged \<noteq> hmac forged"
proof -
  have "replicate 32 (0 :: byte) = 0 # replicate 31 0"
    using replicate_Suc [of 31 "0 :: byte"] by simp
  then show ?thesis
    by (simp add: expected_tag_def example_primitives_simps established_fields forged_def)
qed

lemma receive_encrypt_with:
  assumes "terminated d = None" "same_keys (manager d) s" "in_step (manager d) s"
  shows "receive P d (fst (encrypt_with P s v now plaintext)) =
     (Some plaintext, d\<lparr>manager := (manager d)\<lparr>highest_accepted := Some (send_sequence s)\<rparr>\<rparr>)"
  using assms(1) decrypt_encrypt_with [OF assms(2,3), of P v now plaintext]
  by (simp add: receive_def)

lemma example_receive:
  "receive example_primitives listening first_envelope =
     (Some [72, 105], listening\<lparr>manager := established\<lparr>highest_accepted := Some 0\<rparr>\<rparr>)"
  "receive example_primitives (listening\<lparr>manager := established\<lparr>highest_accepted := Some 0\<rparr>\<rparr>)
     second_envelope =
     (Some [33], listening\<lparr>manager := established\<lparr>highest_accepted := Some 1\<rparr>\<rparr>)"
  "receive example_primitives (listening\<lparr>manager := established\<lparr>highest_accepted := Some 1\<rparr>\<rparr>)
     first_envelope =
     (None, listening\<lparr>manager := established\<lparr>highest_accepted := Some 1\<rparr>,
                      terminated := Some ReplayDetected\<rparr>)"
  "receive example_primitives
     (listening\<lparr>manager := established\<lparr>highest_accepted := Some 1\<rparr>,
                terminated := Some ReplayDetected\<rparr>) third_envelope =
     (None, listening\<lparr>manager := established\<lparr>highest_accepted := Some 1\<rparr>,
                      terminated := Some ReplayDetected\<rparr>)"
proof -
  show "receive example_primitives listening first_envelope =
     (Some [72, 105], listening\<lparr>manager := established\<lparr>highest_accepted := Some 0\<rparr>\<rparr>)"
    unfolding first_envelope_def
    by (subst receive_encrypt_with)
      (simp_all add: listening_def example_same_keys example_in_step established_fields)
  show "receive example_primitives (listening\<lparr>manager := established\<lparr>highest_accepted := Some 0\<rparr>\<rparr>)
     second_envelope =
     (Some [33], listening\<lparr>manager := established\<lparr>highest_accepted := Some 1\<rparr>\<rparr>)"
    unfolding second_envelope_def
    by (subst receive_encrypt_with)
      (simp_all add: listening_def example_same_keys example_in_step after_first_fields)
  show "receive example_primitives (listening\<lparr>manager := established\<lparr>highest_accepted := Some 1\<rparr>\<rparr>)
     first_envelope =
     (None, listening\<lparr>manager := established\<lparr>highest_accepted := Some 1\<rparr>,
                      terminated := Some ReplayDetected\<rparr>)"
    by (subst receive_replayed) (simp_all add: listening_def replayed_def envelope_numbers)
  show "receive example_primitives
     (listening\<lparr>manager := established\<lparr>highest_accepted := Some 1\<rparr>,
                terminated := Some ReplayDetected\<rparr>) third_envelope =
     (None, listening\<lparr>manager := established\<lparr>highest_accepted := Some 1\<rparr>,
                      terminated := Some ReplayDetected\<rparr>)"
    by (rule receive_terminated [of _ ReplayDetected]) simp
qed

lemma example_stream:
  "accepted_sequences example_primitives listening
     [first_envelope, second_envelope, first_envelope, third_envelope] = [0, 1]"
  "receive_all example_primitives listening
     [first_envelope, second_envelope, first_envelope, third_envelope] =
     listening\<lparr>manager := established\<lparr>highest_accepted := Some 1\<rparr>,
                terminated := Some ReplayDetected\<rparr>"
  "receive_all example_primitives listening [first_envelope, second_envelope] =
     listening\<lparr>manager := established\<lparr>highest_accepted := Some 1\<rparr>\<rparr>"
  by (simp_all add: example_receive envelope_numbers)



subsection \<open>Replay protection\<close>

text \<open>
  Claim C1, as the model has it. On a live connection an envelope is accepted exactly when
  its sequence number is strictly greater than the highest one accepted before on that
  direction and its tag verifies. A replayed or reordered envelope, one whose number is at
  most the highest accepted, is rejected with ReplayDetected: the connection is terminated
  and the receive state stays as it is. An envelope that is no replay and whose tag does
  not verify is rejected with IntegrityFailed, in the same way. After an acceptance the
  highest accepted number is exactly the number of the envelope. So, for any stream of
  envelopes presented in any order: nothing is accepted on a terminated connection; the
  accepted sequence numbers are strictly increasing, all of them above what was accepted
  before the stream; the highest accepted number after the stream is the last number
  accepted; and an envelope numbered at or below any number the stream had accepted is
  rejected afterwards, with the connection terminated.
\<close>

theorem receive_replay_guard:
  "(terminated d = None \<longrightarrow>
      (fst (receive P d e) \<noteq> None \<longleftrightarrow>
         \<not> replayed (manager d) e \<and> expected_tag P (hmac_key (manager d)) e = hmac e)) \<and>
   (replayed (manager d) e \<longleftrightarrow>
      (\<exists>h. highest_accepted (manager d) = Some h \<and> sequence_number e \<le> h)) \<and>
   (terminated d = None \<and> replayed (manager d) e \<longrightarrow>
      receive P d e = (None, d\<lparr>terminated := Some ReplayDetected\<rparr>)) \<and>
   (terminated d = None \<and> \<not> replayed (manager d) e \<and>
    expected_tag P (hmac_key (manager d)) e \<noteq> hmac e \<longrightarrow>
      receive P d e = (None, d\<lparr>terminated := Some IntegrityFailed\<rparr>)) \<and>
   (fst (receive P d e) \<noteq> None \<longrightarrow>
      highest_accepted (manager (snd (receive P d e))) = Some (sequence_number e) \<and>
      terminated (snd (receive P d e)) = None) \<and>
   (terminated d \<noteq> None \<longrightarrow> accepted_sequences P d es = []) \<and>
   sorted_wrt (<) (accepted_sequences P d es) \<and>
   (\<forall>x \<in> set (accepted_sequences P d es). \<forall>h. highest_accepted (manager d) = Some h \<longrightarrow> h < x) \<and>
   highest_accepted (manager (receive_all P d es)) =
     (if accepted_sequences P d es = [] then highest_accepted (manager d)
      else Some (last (accepted_sequences P d es))) \<and>
   (\<forall>x \<in> set (accepted_sequences P d es). sequence_number e \<le> x \<longrightarrow>
      fst (receive P (receive_all P d es) e) = None \<and>
      terminated (snd (receive P (receive_all P d es) e)) \<noteq> None)"
proof (intro conjI)
  show "terminated d = None \<longrightarrow>
      (fst (receive P d e) \<noteq> None \<longleftrightarrow>
         \<not> replayed (manager d) e \<and> expected_tag P (hmac_key (manager d)) e = hmac e)"
    by (simp add: receive_def decrypt_def)
  show "replayed (manager d) e \<longleftrightarrow>
      (\<exists>h. highest_accepted (manager d) = Some h \<and> sequence_number e \<le> h)"
    by (simp add: replayed_def split: option.split)
  show "terminated d = None \<and> replayed (manager d) e \<longrightarrow>
      receive P d e = (None, d\<lparr>terminated := Some ReplayDetected\<rparr>)"
    by (simp add: receive_replayed)
  show "terminated d = None \<and> \<not> replayed (manager d) e \<and>
      expected_tag P (hmac_key (manager d)) e \<noteq> hmac e \<longrightarrow>
      receive P d e = (None, d\<lparr>terminated := Some IntegrityFailed\<rparr>)"
    by (simp add: receive_bad_tag)
  show "fst (receive P d e) \<noteq> None \<longrightarrow>
      highest_accepted (manager (snd (receive P d e))) = Some (sequence_number e) \<and>
      terminated (snd (receive P d e)) = None"
    by (cases P d e rule: receive_cases) auto
  show "terminated d \<noteq> None \<longrightarrow> accepted_sequences P d es = []"
    by (simp add: accepted_sequences_terminated)
  note inv = accepted_sequences_invariant [of P d es]
  from inv show "sorted_wrt (<) (accepted_sequences P d es)"
    by (rule conjunct2 [THEN conjunct1])
  from inv show "\<forall>x \<in> set (accepted_sequences P d es).
      \<forall>h. highest_accepted (manager d) = Some h \<longrightarrow> h < x"
    by (rule conjunct1)
  from inv show final: "highest_accepted (manager (receive_all P d es)) =
     (if accepted_sequences P d es = [] then highest_accepted (manager d)
      else Some (last (accepted_sequences P d es)))"
    by (rule conjunct2 [THEN conjunct2])
  show "\<forall>x \<in> set (accepted_sequences P d es). sequence_number e \<le> x \<longrightarrow>
      fst (receive P (receive_all P d es) e) = None \<and>
      terminated (snd (receive P (receive_all P d es) e)) \<noteq> None"
  proof (intro ballI impI)
    fix x
    assume x: "x \<in> set (accepted_sequences P d es)" and le: "sequence_number e \<le> x"
    from x have "accepted_sequences P d es \<noteq> []"
      by auto
    with final have "highest_accepted (manager (receive_all P d es)) =
        Some (last (accepted_sequences P d es))"
      by simp
    moreover from inv x have "x \<le> last (accepted_sequences P d es)"
      by (simp add: sorted_wrt_less_last)
    ultimately have "replayed (manager (receive_all P d es)) e"
      using le by (simp add: replayed_def)
    then show "fst (receive P (receive_all P d es) e) = None \<and>
        terminated (snd (receive P (receive_all P d es) e)) \<noteq> None"
      by (rule receive_replayed_rejected)
  qed
qed

text \<open>
  The theorem at a receiver to which a sender's first and second envelope are presented,
  then the first one again, then the third: the first two are accepted, the replay
  terminates the connection, and nothing is accepted after it. A forged envelope in the
  place of the replay terminates the connection as well.
\<close>

theorem receive_replay_guard_witness:
  "accepted_sequences example_primitives listening
     [first_envelope, second_envelope, first_envelope, third_envelope] = [0, 1] \<and>
   sorted_wrt (<) (accepted_sequences example_primitives listening
     [first_envelope, second_envelope, first_envelope, third_envelope]) \<and>
   highest_accepted (manager (receive_all example_primitives listening
     [first_envelope, second_envelope, first_envelope, third_envelope])) = Some 1 \<and>
   fst (receive example_primitives listening first_envelope) = Some [72, 105] \<and>
   highest_accepted (manager (snd (receive example_primitives listening first_envelope))) = Some 0 \<and>
   terminated (receive_all example_primitives listening [first_envelope, second_envelope]) = None \<and>
   receive example_primitives
     (receive_all example_primitives listening [first_envelope, second_envelope]) first_envelope =
     (None, (receive_all example_primitives listening [first_envelope, second_envelope])
              \<lparr>terminated := Some ReplayDetected\<rparr>) \<and>
   fst (receive example_primitives
     (receive_all example_primitives listening
        [first_envelope, second_envelope, first_envelope, third_envelope]) second_envelope) = None \<and>
   receive example_primitives
     (receive_all example_primitives listening [first_envelope, second_envelope]) forged =
     (None, (receive_all example_primitives listening [first_envelope, second_envelope])
              \<lparr>terminated := Some IntegrityFailed\<rparr>)"
proof -
  define es where "es = [first_envelope, second_envelope, first_envelope, third_envelope]"
  define d where "d = receive_all example_primitives listening [first_envelope, second_envelope]"
  have a: "accepted_sequences example_primitives listening es = [0, 1]"
    unfolding es_def by (rule example_stream)
  have r: "fst (receive example_primitives listening first_envelope) = Some [72, 105]"
    by (simp add: example_receive)
  have d: "terminated d = None" "highest_accepted (manager d) = Some 1"
    "hmac_key (manager d) = hmac_key established"
    unfolding d_def example_stream(3) by (simp_all add: listening_def)
  from receive_replay_guard [of listening example_primitives first_envelope es] a r
  have 1: "sorted_wrt (<) (accepted_sequences example_primitives listening es)"
    "highest_accepted (manager (receive_all example_primitives listening es)) = Some 1"
    "highest_accepted (manager (snd (receive example_primitives listening first_envelope))) = Some 0"
    by (simp_all add: envelope_numbers)
  from receive_replay_guard [of d example_primitives first_envelope es] d
  have 2: "receive example_primitives d first_envelope = (None, d\<lparr>terminated := Some ReplayDetected\<rparr>)"
    by (simp add: envelope_numbers)
  from receive_replay_guard [of listening example_primitives second_envelope es] a
  have 3: "fst (receive example_primitives (receive_all example_primitives listening es)
      second_envelope) = None"
    by (simp add: envelope_numbers)
  have f: "\<not> replayed (manager d) forged"
    "expected_tag example_primitives (hmac_key (manager d)) forged \<noteq> hmac forged"
    using example_tag_forged by (simp_all add: replayed_def d envelope_numbers word_le_nat_alt)
  from receive_replay_guard [of d example_primitives forged es] d(1) f
  have 4: "receive example_primitives d forged = (None, d\<lparr>terminated := Some IntegrityFailed\<rparr>)"
    by blast
  from a 1 r d(1) 2 3 4 show ?thesis
    unfolding es_def d_def by simp
qed

text \<open>
  Claim C1 as stated fails: an envelope whose sequence number is strictly greater than the
  highest accepted one is not accepted when its tag does not verify. The forged envelope
  numbered 5, presented to a receiver that has accepted nothing, is rejected with
  IntegrityFailed and the connection is terminated.
\<close>

theorem receive_forged_counterexample:
  "terminated listening = None \<and> highest_accepted (manager listening) = None \<and>
   \<not> replayed (manager listening) forged \<and>
   decrypt example_primitives (manager listening) forged = (Inl IntegrityFailed, manager listening) \<and>
   receive example_primitives listening forged =
     (None, listening\<lparr>terminated := Some IntegrityFailed\<rparr>)"
proof -
  have l: "terminated listening = None" "manager listening = established"
    by (simp_all add: listening_def)
  have r: "\<not> replayed established forged"
    by (simp add: replayed_def established_fields)
  with example_tag_forged have "decrypt example_primitives established forged =
      (Inl IntegrityFailed, established)"
    by (simp add: decrypt_def)
  with l r show ?thesis
    by (simp add: receive_def established_fields)
qed

subsection \<open>Round trip\<close>

text \<open>
  Claim C2. Whatever the plaintext (of any length, the empty one included), the keys and
  the time: when a sender encrypts it, a receiver that holds the same keys and is in step
  with the sender decrypts the envelope to that plaintext, and the highest accepted number
  becomes the number of the envelope. The receiver may be the sending manager itself, as
  it was before the call or as the call leaves it.
\<close>

theorem encrypt_decrypt_round_trip:
  assumes "encrypt P s now plaintext (e, s')" and "same_keys r s" and "in_step r s"
  shows "decrypt P r e = (Inr plaintext, r\<lparr>highest_accepted := Some (sequence_number e)\<rparr>) \<and>
         sequence_number e = send_sequence s \<and> same_keys r s'"
proof -
  from assms(1) have e: "fst (encrypt_with P s (iv e) now plaintext) = e"
    and s': "s' = s\<lparr>send_sequence := send_sequence s + 1, used := iv e # used s\<rparr>"
    and n: "sequence_number e = send_sequence s"
    by (rule encrypt_outcome)+
  from decrypt_encrypt_with [OF assms(2,3), of P "iv e" now plaintext]
  have "decrypt P r e = (Inr plaintext, r\<lparr>highest_accepted := Some (send_sequence s)\<rparr>)"
    unfolding e .
  moreover from assms(2) have "same_keys r s'"
    by (simp add: same_keys_def s')
  ultimately show ?thesis
    using n by simp
qed

text \<open>
  The theorem at a sender and a receiver that derived their keys from the same secret, for
  the first and for the second envelope, and at a sender that decrypts its own envelope.
\<close>

theorem encrypt_decrypt_round_trip_witness:
  "encrypt example_primitives established 1000 [72, 105] (first_envelope, after_first) \<and>
   decrypt example_primitives established first_envelope =
     (Inr [72, 105], established\<lparr>highest_accepted := Some 0\<rparr>) \<and>
   encrypt example_primitives after_first 1001 [33] (second_envelope, after_second) \<and>
   decrypt example_primitives (established\<lparr>highest_accepted := Some 0\<rparr>) second_envelope =
     (Inr [33], established\<lparr>highest_accepted := Some 1\<rparr>) \<and>
   decrypt example_primitives after_first first_envelope =
     (Inr [72, 105], after_first\<lparr>highest_accepted := Some 0\<rparr>)"
proof -
  define r where "r = established\<lparr>highest_accepted := Some 0\<rparr>"
  from encrypt_decrypt_round_trip [OF example_encrypt(1) example_same_keys(1) example_in_step(1)]
  have 1: "decrypt example_primitives established first_envelope =
      (Inr [72, 105], established\<lparr>highest_accepted := Some 0\<rparr>)"
    by (simp add: envelope_numbers)
  from encrypt_decrypt_round_trip [OF example_encrypt(2) example_same_keys(3) example_in_step(3)]
  have 2: "decrypt example_primitives r second_envelope = (Inr [33], r\<lparr>highest_accepted := Some 1\<rparr>)"
    by (simp add: envelope_numbers r_def)
  from encrypt_decrypt_round_trip [OF example_encrypt(1) example_same_keys(2) example_in_step(2)]
  have 3: "decrypt example_primitives after_first first_envelope =
      (Inr [72, 105], after_first\<lparr>highest_accepted := Some 0\<rparr>)"
    by (simp add: envelope_numbers)
  from example_encrypt 1 2 3 show ?thesis
    unfolding r_def by simp
qed

text \<open>
  After the round trip the receiver is in step with the sender again, as long as the
  sender's counter has not reached its last value: round trips can follow each other.
\<close>

lemma word_less_succ: "(x :: 64 word) \<noteq> - 1 \<Longrightarrow> x < x + 1"
  using inc_less_eq_triv_imp [of x] by (auto simp: not_le [symmetric])

lemma in_step_round_trip:
  assumes "encrypt P s now plaintext (e, s')" and "same_keys r s" and "in_step r s"
    and "send_sequence s \<noteq> - 1"
  shows "in_step (snd (decrypt P r e)) s' \<and> same_keys (snd (decrypt P r e)) s'"
proof -
  note e = encrypt_outcome(1) [OF assms(1)] and s' = encrypt_outcome(2) [OF assms(1)]
  from decrypt_encrypt_with [OF assms(2,3), of P "iv e" now plaintext]
  have "snd (decrypt P r e) = r\<lparr>highest_accepted := Some (send_sequence s)\<rparr>"
    unfolding e by simp
  moreover have "send_sequence s' = send_sequence s + 1" "session_key s' = session_key s"
    "hmac_key s' = hmac_key s"
    by (simp_all add: s')
  ultimately show ?thesis
    using assms(2) word_less_succ [OF assms(4)] by (simp add: in_step_def same_keys_def)
qed

subsection \<open>Rekey\<close>

lemma keyed_deriveSessionKeys: "keyed P (deriveSessionKeys P st secret)"
  by (simp add: keyed_def deriveSessionKeys_def)

lemma keyed_encrypt: "encrypt P st now plaintext (e, st') \<Longrightarrow> keyed P st \<Longrightarrow> keyed P st'"
  by (drule encrypt_outcome(2)) (simp add: keyed_def list_ex_iff)

lemma keyed_decrypt: "keyed P st \<Longrightarrow> keyed P (snd (decrypt P st e))"
  by (simp add: keyed_def decrypt_def)






subsection \<open>Encrypting the same plaintext twice\<close>









end
